theory Spec2Isabelle
  imports Main "HOL-Library.Word" "HOL-Library.AList"
begin

section \<open>Signals and the signal name table\<close>

text \<open>
  The source is \<^verbatim>\<open>starter.go\<close>, package \<^verbatim>\<open>starter\<close>. A \<^verbatim>\<open>syscall.Signal\<close> is modelled by
  the constants the source names: the literal of \<^verbatim>\<open>niceSigNames\<close> uses each of them as a
  map key, and Go refuses a map literal with two equal constant keys, so they are pairwise
  distinct on every platform where the file compiles.
\<close>

datatype syscall_Signal =
    SIGABRT | SIGALRM | SIGBUS | SIGCHLD | SIGCONT | SIGEMT | SIGFPE | SIGHUP | SIGILL
  | SIGINFO | SIGINT | SIGIO | SIGKILL | SIGPIPE | SIGPROF | SIGQUIT | SIGSEGV | SIGSTOP
  | SIGSYS | SIGTERM | SIGTRAP | SIGTSTP | SIGTTIN | SIGTTOU | SIGURG | SIGUSR1 | SIGUSR2
  | SIGVTALRM | SIGWINCH | SIGXCPU | SIGXFSZ

text \<open>
  An \<^verbatim>\<open>os.Signal\<close> is an interface value: nil, a \<^verbatim>\<open>syscall.Signal\<close>, or a value of some
  other implementing type.
\<close>

datatype os_Signal = SigNil | Sys syscall_Signal | ForeignSignal string

text \<open>The map literal of \<^verbatim>\<open>init\<close>, in source order (\<^verbatim>\<open>SIGXFSZ\<close> is spelled as the source has it).\<close>

definition niceSigNames_literal :: "(syscall_Signal \<times> string) list" where
  "niceSigNames_literal =
    [(SIGABRT, ''ABRT''), (SIGALRM, ''ALRM''), (SIGBUS, ''BUS''), (SIGCHLD, ''CHLD''),
     (SIGCONT, ''CONT''), (SIGEMT, ''EMT''), (SIGFPE, ''FPE''), (SIGHUP, ''HUP''),
     (SIGILL, ''ILL''), (SIGINFO, ''INFO''), (SIGINT, ''INT''), (SIGIO, ''IO''),
     (SIGKILL, ''KILL''), (SIGPIPE, ''PIPE''), (SIGPROF, ''PROF''), (SIGQUIT, ''QUIT''),
     (SIGSEGV, ''SEGV''), (SIGSTOP, ''STOP''), (SIGSYS, ''SYS''), (SIGTERM, ''TERM''),
     (SIGTRAP, ''TRAP''), (SIGTSTP, ''TSTP''), (SIGTTIN, ''TTIN''), (SIGTTOU, ''TTOU''),
     (SIGURG, ''URG''), (SIGUSR1, ''USR1''), (SIGUSR2, ''USR2''), (SIGVTALRM, ''VTALRM''),
     (SIGWINCH, ''WINCH''), (SIGXCPU, ''XCPU''), (SIGXFSZ, ''GXFSZ'')]"

text \<open>The two package-level variables. A Go map variable that was never assigned is nil:
  reading it finds no key.\<close>

record globals =
  niceSigNames :: "syscall_Signal \<rightharpoonup> string"
  niceNameToSigs :: "string \<rightharpoonup> syscall_Signal"

definition globals_zero :: globals where
  "globals_zero = \<lparr>niceSigNames = Map.empty, niceNameToSigs = Map.empty\<rparr>"

text \<open>
  \<^verbatim>\<open>init\<close> assigns the package variable \<^verbatim>\<open>niceSigNames\<close> with \<^verbatim>\<open>=\<close>, and then declares
  \<^verbatim>\<open>niceNameToSigs := make(...)\<close> with \<^verbatim>\<open>:=\<close>: a new local variable of the function, which
  the loop fills and which is dropped when \<^verbatim>\<open>init\<close> returns. The package variable of the
  same name is not touched.
\<close>

definition init_local_niceNameToSigs :: "string \<rightharpoonup> syscall_Signal" where
  "init_local_niceNameToSigs =
     fold (\<lambda>(sig, name) m. m(name \<mapsto> sig)) niceSigNames_literal Map.empty"

definition init :: "globals \<Rightarrow> globals" where
  "init g =
     (let g1 = g\<lparr>niceSigNames := map_of niceSigNames_literal\<rparr>;
          local_niceNameToSigs = init_local_niceNameToSigs
      in g1)"

definition signame :: "globals \<Rightarrow> os_Signal \<Rightarrow> string" where
  "signame g s =
     (case s of
        Sys ss \<Rightarrow> (case niceSigNames g ss of Some n \<Rightarrow> n | None \<Rightarrow> [])
      | _ \<Rightarrow> ''UNKNOWN'')"

definition SigFromName :: "globals \<Rightarrow> string \<Rightarrow> os_Signal" where
  "SigFromName g n = (case niceNameToSigs g n of Some sig \<Rightarrow> Sys sig | None \<Rightarrow> SigNil)"

section \<open>Configuration and the Starter\<close>

text \<open>Durations are \<^verbatim>\<open>int64\<close> nanoseconds, the generation is a Go \<^verbatim>\<open>int\<close> (64 bits):
  both are 64-bit words, read as two's complement by \<^const>\<open>sint\<close>.\<close>

type_synonym Duration = "64 word"

definition Second :: Duration where
  "Second = 1000000000"

record Config =
  Args :: "string list"
  Command :: string
  Dir :: string
  Interval :: Duration
  PidFile :: string
  Ports :: "string list"
  Paths :: "string list"
  SignalOnHUP :: os_Signal
  SignalOnTERM :: os_Signal
  StatusFile :: string

text \<open>A listener as the supervisor holds it: the address it was bound to, and whether
  \<^verbatim>\<open>Close\<close> was called on it. Every listener the source creates comes from
  \<^verbatim>\<open>net.Listen("tcp4", ...)\<close>. A slot of \<^verbatim>\<open>listeners\<close> that was never assigned is nil.\<close>

record listener =
  l_addr :: string
  l_closed :: bool

record Starter =
  interval :: Duration
  signalOnHUP :: os_Signal
  signalOnTERM :: os_Signal
  statusFile :: string
  pidFile :: string
  dir :: string
  ports :: "string list"
  paths :: "string list"
  listeners :: "listener option list"
  generation :: "64 word"
  command :: string
  args :: "string list"

text \<open>\<^verbatim>\<open>NewStarter\<close>: the \<^verbatim>\<open>Config\<close> argument is an interface value, nil or a configuration;
  the result is the error message or the new Starter.\<close>

definition NewStarter :: "Config option \<Rightarrow> string + Starter" where
  "NewStarter c =
     (case c of
        None \<Rightarrow> Inl ''config argument must be non-nil''
      | Some cfg \<Rightarrow>
          (let signalOnHUP0 = (if SignalOnHUP cfg \<noteq> SigNil then SignalOnHUP cfg else Sys SIGTERM);
               signalOnTERM0 = (if SignalOnTERM cfg \<noteq> SigNil then SignalOnTERM cfg else Sys SIGTERM)
           in if Command cfg = [] then Inl ''argument Command must be specified''
              else Inr \<lparr>interval = Interval cfg,
                        signalOnHUP = signalOnHUP0,
                        signalOnTERM = signalOnTERM0,
                        statusFile = StatusFile cfg,
                        pidFile = PidFile cfg,
                        dir = Dir cfg,
                        ports = Ports cfg,
                        paths = Paths cfg,
                        listeners = replicate (length (Ports cfg) + length (Paths cfg)) None,
                        generation = 0,
                        command = Command cfg,
                        args = Args cfg\<rparr>))"

section \<open>Library functions the source calls\<close>

text \<open>
  \<^verbatim>\<open>fmt.Sprintf("%d", n)\<close>: the decimal rendering of an integer.
\<close>

definition digit_char :: "nat \<Rightarrow> char" where
  "digit_char n = ''0123456789'' ! (n mod 10)"

function nat_digits :: "nat \<Rightarrow> string" where
  "nat_digits n = (if n < 10 then [digit_char n] else nat_digits (n div 10) @ [digit_char (n mod 10)])"
  by pat_completeness auto
termination
  by (relation "measure id") auto

declare nat_digits.simps [simp del]

definition fmt_d :: "int \<Rightarrow> string" where
  "fmt_d i = (if i < 0 then CHR ''-'' # nat_digits (nat (- i)) else nat_digits (nat i))"

text \<open>\<^verbatim>\<open>strings.Join(xs, sep)\<close>.\<close>

fun Join :: "string list \<Rightarrow> string \<Rightarrow> string" where
  "Join [] sep = []"
| "Join [x] sep = x"
| "Join (x # y # ys) sep = x @ sep @ Join (y # ys) sep"

text \<open>
  \<^verbatim>\<open>strconv.ParseInt(s, 10, bits)\<close> for a 64-bit result (\<^verbatim>\<open>bitSize\<close> 64, or 0 where \<^verbatim>\<open>int\<close> has
  64 bits), after the documentation of the Go library: an optional sign, then one or more
  decimal digits; a syntax error gives 0; a value out of range gives the nearest bound and
  a range error. The result is the value and whether \<^verbatim>\<open>err\<close> is nil.
\<close>

definition is_digit :: "char \<Rightarrow> bool" where
  "is_digit c = (c \<in> set ''0123456789'')"

definition digit_val :: "char \<Rightarrow> nat" where
  "digit_val c = of_char c - 48"

definition dec_value :: "string \<Rightarrow> nat" where
  "dec_value ds = foldl (\<lambda>acc c. 10 * acc + digit_val c) 0 ds"

definition strip_sign :: "string \<Rightarrow> string" where
  "strip_sign s0 = (if s0 \<noteq> [] \<and> (hd s0 = CHR ''+'' \<or> hd s0 = CHR ''-'') then tl s0 else s0)"

definition ParseInt :: "string \<Rightarrow> int \<times> bool" where
  "ParseInt s0 =
     (if s0 = [] then (0, False)
      else
        let neg = (hd s0 = CHR ''-'');
            s = strip_sign s0
        in if s = [] \<or> \<not> list_all is_digit s then (0, False)
           else
             let un = dec_value s
             in if \<not> neg \<and> un \<ge> 2 ^ 63 then (2 ^ 63 - 1, False)
                else if neg \<and> un > 2 ^ 63 then (- (2 ^ 63), False)
                else (if neg then - int un else int un, True))"

text \<open>\<^verbatim>\<open>strconv.ParseBool\<close>: the value and whether \<^verbatim>\<open>err\<close> is nil.\<close>

definition ParseBool :: "string \<Rightarrow> bool \<times> bool" where
  "ParseBool str =
     (if str \<in> set [''1'', ''t'', ''T'', ''TRUE'', ''true'', ''True''] then (True, True)
      else if str \<in> set [''0'', ''f'', ''F'', ''FALSE'', ''false'', ''False''] then (False, True)
      else (False, False))"

text \<open>The process environment; \<^verbatim>\<open>os.Getenv\<close> gives the empty string for an unset variable.\<close>

type_synonym environment = "string \<rightharpoonup> string"

definition Getenv :: "environment \<Rightarrow> string \<Rightarrow> string" where
  "Getenv e k = (case e k of Some v \<Rightarrow> v | None \<Rightarrow> [])"

section \<open>getKillOldDelay\<close>

text \<open>\<^verbatim>\<open>getKillOldDelay\<close>: both parse errors are ignored; the product
  \<^verbatim>\<open>time.Duration(delay) * time.Second\<close> is an \<^verbatim>\<open>int64\<close> product and wraps.\<close>

definition getKillOldDelay :: "environment \<Rightarrow> Duration" where
  "getKillOldDelay e =
     (let delay = fst (ParseInt (Getenv e ''KILL_OLD_DELAY''));
          autoRestart = fst (ParseBool (Getenv e ''ENABLE_AUTO_RESTART''));
          delay = (if autoRestart \<and> delay = 0 then 5 else delay)
      in word_of_int delay * Second)"

section \<open>The operating system as the supervisor sees it\<close>

text \<open>
  What the program changes: the process environment, the files, the descriptors it
  duplicated from its listeners (\<^verbatim>\<open>File()\<close>) and has not closed, and the calls it makes on
  processes, in order. Log lines written to the error stream are left out: no decision
  of the program reads them.
\<close>

datatype effect =
    Exec string "string list" string "nat option list" environment
      \<comment> \<open>\<^verbatim>\<open>cmd.Start()\<close>: command, arguments, directory, \<^verbatim>\<open>ExtraFiles\<close>, and the
          environment the child inherits\<close>
  | Wait int \<comment> \<open>\<^verbatim>\<open>cmd.Wait()\<close> on the retry path (pid, \<open>-1\<close> when nothing was started)\<close>
  | Reap int \<comment> \<open>the goroutine that waits for the worker and reports on the channel\<close>
  | Resend os_Signal \<comment> \<open>a goroutine putting a buffered signal back on \<^verbatim>\<open>sigCh\<close>\<close>
  | Signal int os_Signal \<comment> \<open>\<^verbatim>\<open>worker.Signal(sig)\<close> on the process found for the pid\<close>
  | Sleep Duration

record world =
  environ :: environment
  files :: "string \<rightharpoonup> string"
  open_files :: "nat list"
  next_file :: nat
  trace :: "effect list"

text \<open>
  What the program cannot decide itself is a parameter: the pid of the supervisor, the
  answers of \<^verbatim>\<open>os.OpenFile\<close>, \<^verbatim>\<open>net.Listen\<close> and \<^verbatim>\<open>os.FindProcess\<close> (an error or not), and
  the result of \<^verbatim>\<open>reloadEnv\<close>, a function of the package that is not in this file.
\<close>

record os_env =
  Getpid :: int
  OpenFile_err :: "string \<Rightarrow> string option"
  Listen_err :: "string \<Rightarrow> string option"
  FindProcess_err :: "int \<Rightarrow> bool"
  reloadEnv :: "(string \<times> string) list"

text \<open>One spawn attempt as the system answers it: \<^verbatim>\<open>cmd.Start()\<close> fails, or the process
  starts with a pid and the signals that arrive on \<^verbatim>\<open>sigCh\<close> before the interval ends.\<close>

datatype attempt = StartError string | Started int "os_Signal list"

text \<open>What the main loop receives from its \<^verbatim>\<open>select\<close>, in the order it receives it: the
  exit of a worker (pid and wait status) or a signal.\<close>

datatype event = WorkerExit int nat | SigRecv os_Signal

definition Setenv :: "string \<Rightarrow> string \<Rightarrow> world \<Rightarrow> world" where
  "Setenv k v w = w\<lparr>environ := (environ w)(k \<mapsto> v)\<rparr>"

definition Remove :: "string \<Rightarrow> world \<Rightarrow> world" where
  "Remove path w = w\<lparr>files := (files w)(path := None)\<rparr>"

definition emit :: "effect \<Rightarrow> world \<Rightarrow> world" where
  "emit e w = w\<lparr>trace := trace w @ [e]\<rparr>"

definition close_files :: "nat list \<Rightarrow> world \<Rightarrow> world" where
  "close_files fs w = w\<lparr>open_files := filter (\<lambda>f. f \<notin> set fs) (open_files w)\<rparr>"

definition setEnv :: "os_env \<Rightarrow> world \<Rightarrow> world" where
  "setEnv os w =
     (if Getenv (environ w) ''ENVDIR'' = [] then w
      else fold (\<lambda>(k, v) w'. Setenv k v w') (reloadEnv os) w)"

section \<open>Close and Teardown\<close>

definition Close :: "Starter \<Rightarrow> world \<Rightarrow> world" where
  "Close s w =
     (let w1 = (if statusFile s \<noteq> [] then Remove (statusFile s) w else w);
          w2 = (if pidFile s \<noteq> [] then Remove (pidFile s) w1 else w1)
      in w2)"

definition close_listener :: "listener option \<Rightarrow> listener option" where
  "close_listener l = (case l of None \<Rightarrow> None | Some x \<Rightarrow> Some (x\<lparr>l_closed := True\<rparr>))"

text \<open>\<^verbatim>\<open>Teardown\<close> always returns a nil error; the model returns the state it leaves.\<close>

definition Teardown :: "Starter \<Rightarrow> world \<Rightarrow> Starter \<times> world" where
  "Teardown s w =
     (let w1 = (if pidFile s \<noteq> [] then Remove (pidFile s) w else w)
      in (s\<lparr>listeners := map close_listener (listeners s)\<rparr>, w1))"

section \<open>StartWorker\<close>

text \<open>
  The loop over \<^verbatim>\<open>s.listeners\<close> at the head of every attempt. \<^verbatim>\<open>files\<close> and \<^verbatim>\<open>ports\<close> were
  made with \<^verbatim>\<open>len(s.ports)\<close> entries. For the listener at index \<open>i\<close>: the type assertion
  \<^verbatim>\<open>l.(*net.TCPListener)\<close> panics on a nil entry, \<^verbatim>\<open>File()\<close> fails on a closed listener
  and the source panics with that error, the new descriptor is registered for the
  deferred close, and \<^verbatim>\<open>s.ports[i]\<close> panics when \<open>i\<close> is out of range. A panic leaves
  the world and the deferred closes as they are at that point.
\<close>

record inherit_state =
  i_world :: world
  i_files :: "nat option list"
  i_ports :: "string list"
  i_defers :: "nat list"

fun inherit_loop :: "Starter \<Rightarrow> nat \<Rightarrow> listener option list \<Rightarrow> inherit_state \<Rightarrow> (string \<times> inherit_state) + inherit_state" where
  "inherit_loop s i [] st = Inr st"
| "inherit_loop s i (l # ls) st =
     (case l of
        None \<Rightarrow> Inl (''interface conversion: interface is nil, not *net.TCPListener'', st)
      | Some x \<Rightarrow>
          if l_closed x then Inl (''use of closed network connection'', st)
          else
            let f = next_file (i_world st);
                w1 = (i_world st)\<lparr>next_file := Suc f, open_files := open_files (i_world st) @ [f]\<rparr>;
                st1 = st\<lparr>i_world := w1, i_defers := f # i_defers st\<rparr>
            in if i < length (ports s)
               then inherit_loop s (Suc i) ls
                      (st1\<lparr>i_ports := (i_ports st1)[i := ports s ! i @ ''='' @ fmt_d (int i + 3)],
                           i_files := (i_files st1)[i := Some f]\<rparr>)
               else Inl (''index out of range'', st1))"

datatype sw_result =
    SwReturn "int option" Starter world "attempt list"
      \<comment> \<open>the handle returned (nil when \<^verbatim>\<open>os.FindProcess\<close> failed), and the attempts not consumed\<close>
  | SwPanic string Starter world
  | SwRetrying Starter world \<comment> \<open>still in the retry loop when the attempts given end\<close>

definition gotSig_of :: "os_Signal list \<Rightarrow> bool" where
  "gotSig_of sigs = list_ex (\<lambda>sig. case sig of Sys sysSig \<Rightarrow> sysSig \<noteq> SIGHUP | _ \<Rightarrow> False) sigs"

text \<open>
  The part of an attempt after \<^verbatim>\<open>cmd.Start()\<close> that falls through to the retry:
  \<^verbatim>\<open>cmd.Wait()\<close>, then \<^verbatim>\<open>Close\<close> on every entry of \<^verbatim>\<open>cmd.ExtraFiles\<close> (on a nil entry
  \<^verbatim>\<open>Close\<close> only returns an error).
\<close>

definition fall_through :: "int \<Rightarrow> nat option list \<Rightarrow> world \<Rightarrow> world" where
  "fall_through pid fs w = close_files (List.map_filter id fs) (emit (Wait pid) w)"

text \<open>
  The head of an attempt, up to the line before \<^verbatim>\<open>cmd.Start()\<close>: the loop over the
  listeners, \<^verbatim>\<open>s.generation++\<close>, and the two \<^verbatim>\<open>os.Setenv\<close> calls. \<open>defers\<close> are the deferred
  \<^verbatim>\<open>f.Close()\<close> calls registered so far in this call of \<^verbatim>\<open>StartWorker\<close>: they run when the
  function returns or panics, not at the end of an attempt.
\<close>

definition prepare :: "Starter \<Rightarrow> world \<Rightarrow> nat list \<Rightarrow> (string \<times> world) + (Starter \<times> world \<times> inherit_state)" where
  "prepare s w defers =
     (case inherit_loop s 0 (listeners s)
             \<lparr>i_world = w, i_files = replicate (length (ports s)) None,
              i_ports = replicate (length (ports s)) [], i_defers = defers\<rparr> of
        Inl (msg, st) \<Rightarrow> Inl (msg, close_files (i_defers st) (i_world st))
      | Inr st \<Rightarrow>
          (let s1 = s\<lparr>generation := generation s + 1\<rparr>;
               w1 = Setenv ''SERVER_STARTER_PORT'' (Join (i_ports st) '';'') (i_world st);
               w2 = Setenv ''SERVER_STARTER_GENERATION'' (fmt_d (sint (generation s1))) w1
           in Inr (s1, w2, st)))"

text \<open>
  The rest of the attempt, from \<^verbatim>\<open>cmd.Start()\<close> on, for one answer of the system: \<open>Inl\<close> is
  the return of \<^verbatim>\<open>StartWorker\<close> with the handle \<^verbatim>\<open>p\<close> of \<^verbatim>\<open>os.FindProcess\<close> (nil when it
  failed), \<open>Inr\<close> is the fall through to the next attempt.
\<close>

definition run_attempt :: "os_env \<Rightarrow> Starter \<Rightarrow> world \<Rightarrow> inherit_state \<Rightarrow> attempt \<Rightarrow> (int option \<times> world) + world" where
  "run_attempt os s w st a =
     (let w3 = emit (Exec (command s) (args s) (dir s) (i_files st) (environ w)) w
      in case a of
           StartError e \<Rightarrow> Inr (fall_through (- 1) (i_files st) w3)
         | Started pid sigs \<Rightarrow>
             (let w4 = fold (\<lambda>sig. emit (Resend sig)) sigs w3;
                  gotSig = gotSig_of sigs;
                  err = FindProcess_err os pid
              in if gotSig \<or> \<not> err
                 then Inl (if err then None else Some pid,
                           close_files (i_defers st) (emit (Reap pid) w4))
                 else Inr (fall_through pid (i_files st) w4)))"

text \<open>\<^verbatim>\<open>StartWorker\<close>'s loop \<^verbatim>\<open>for { ... }\<close> over the answers of the system.\<close>

fun StartWorker_loop :: "os_env \<Rightarrow> Starter \<Rightarrow> world \<Rightarrow> nat list \<Rightarrow> attempt list \<Rightarrow> sw_result" where
  "StartWorker_loop os s w defers [] =
     (case prepare s w defers of
        Inl (msg, w') \<Rightarrow> SwPanic msg s w'
      | Inr (s1, w2, st) \<Rightarrow> SwRetrying s1 w2)"
| "StartWorker_loop os s w defers (a # rest) =
     (case prepare s w defers of
        Inl (msg, w') \<Rightarrow> SwPanic msg s w'
      | Inr (s1, w2, st) \<Rightarrow>
          (case run_attempt os s1 w2 st a of
             Inl (p', w') \<Rightarrow> SwReturn p' s1 w' rest
           | Inr w' \<Rightarrow> StartWorker_loop os s1 w' (i_defers st) rest))"

definition StartWorker :: "os_env \<Rightarrow> Starter \<Rightarrow> world \<Rightarrow> attempt list \<Rightarrow> sw_result" where
  "StartWorker os s w atts = StartWorker_loop os s w [] atts"

section \<open>Run: the supervisor\<close>

text \<open>
  The variables of \<^verbatim>\<open>Run\<close> that its loop and its deferred function share: the Starter
  \<^verbatim>\<open>s\<close>, the current worker \<^verbatim>\<open>p\<close> (nil or a handle with its pid), \<^verbatim>\<open>oldWorkers\<close> (pid to
  generation), \<^verbatim>\<open>sigReceived\<close> and \<^verbatim>\<open>sigToSend\<close>; with them the world, and the spawn
  attempts the system has not answered yet. \<^verbatim>\<open>oldWorkers\<close> is a Go map: the model keeps it as
  a list of pairs with one pair per key and walks it in that order where Go's order is not
  specified.
\<close>

record run_state =
  r_s :: Starter
  r_w :: world
  r_p :: "int option"
  oldWorkers :: "(int \<times> 64 word) list"
  sigReceived :: os_Signal
  sigToSend :: os_Signal
  r_attempts :: "attempt list"

text \<open>The loops \<^verbatim>\<open>for pid := range oldWorkers\<close> that signal: a pid \<^verbatim>\<open>os.FindProcess\<close>
  does not find is skipped.\<close>

fun signal_all :: "os_env \<Rightarrow> os_Signal \<Rightarrow> int list \<Rightarrow> world \<Rightarrow> world" where
  "signal_all os sig [] w = w"
| "signal_all os sig (pid # pids) w =
     signal_all os sig pids (if FindProcess_err os pid then w else emit (Signal pid sig) w)"

datatype body_result =
    Continue run_state
  | Return run_state \<comment> \<open>\<^verbatim>\<open>return nil\<close>\<close>
  | BodyPanic string run_state
  | Stuck \<comment> \<open>\<^verbatim>\<open>StartWorker\<close> has not returned when the attempts given end\<close>

text \<open>The \<^verbatim>\<open>select\<close> of the inner loop for one event: the value it leaves in \<^verbatim>\<open>restart\<close>
  (0 at the head of every iteration) and what follows.\<close>

definition select_case :: "os_env \<Rightarrow> run_state \<Rightarrow> event \<Rightarrow> nat \<times> body_result" where
  "select_case os v e =
     (case e of
        WorkerExit pid status \<Rightarrow>
          (0,
           case r_p v of
             None \<Rightarrow> BodyPanic ''nil pointer dereference'' v
           | Some cur \<Rightarrow>
               if cur = pid
               then (case StartWorker os (r_s v) (r_w v) (r_attempts v) of
                       SwReturn p' s' w' rest \<Rightarrow>
                         Continue (v\<lparr>r_s := s', r_w := w', r_p := p', r_attempts := rest\<rparr>)
                     | SwPanic m s' w' \<Rightarrow> BodyPanic m (v\<lparr>r_s := s', r_w := w'\<rparr>)
                     | SwRetrying s' w' \<Rightarrow> Stuck)
               else Continue (v\<lparr>oldWorkers := AList.delete pid (oldWorkers v)\<rparr>))
      | SigRecv sig \<Rightarrow>
          (let v1 = v\<lparr>sigReceived := sig\<rparr>
           in if sig = Sys SIGHUP then (1, Continue (v1\<lparr>sigToSend := signalOnHUP (r_s v1)\<rparr>))
              else if sig = Sys SIGTERM then (0, Return (v1\<lparr>sigToSend := signalOnTERM (r_s v1)\<rparr>))
              else (0, Return (v1\<lparr>sigToSend := Sys SIGTERM\<rparr>))))"

text \<open>The block under \<^verbatim>\<open>if restart > 1 || restart > 0 && len(oldWorkers) == 0\<close>.\<close>

definition restart_block :: "os_env \<Rightarrow> run_state \<Rightarrow> body_result" where
  "restart_block os v =
     (case r_p v of
        None \<Rightarrow> BodyPanic ''nil pointer dereference'' v
      | Some cur \<Rightarrow>
          (let v1 = v\<lparr>oldWorkers := AList.update cur (generation (r_s v)) (oldWorkers v)\<rparr>
           in case StartWorker os (r_s v1) (r_w v1) (r_attempts v1) of
                SwRetrying s' w' \<Rightarrow> Stuck
              | SwPanic m s' w' \<Rightarrow> BodyPanic m (v1\<lparr>r_s := s', r_w := w'\<rparr>)
              | SwReturn p' s' w' rest \<Rightarrow>
                  (let v2 = v1\<lparr>r_s := s', r_w := w', r_p := p', r_attempts := rest\<rparr>;
                       size = length (oldWorkers v2)
                   in if size = 0 then Continue v2
                      else
                        let killOldDelay = getKillOldDelay (environ (r_w v2));
                            w1 = (if 0 <s killOldDelay then emit (Sleep killOldDelay) (r_w v2)
                                  else r_w v2);
                            w2 = signal_all os (signalOnHUP (r_s v2)) (map fst (oldWorkers v2)) w1
                        in Continue (v2\<lparr>r_w := w2\<rparr>))))"

definition loop_body :: "os_env \<Rightarrow> run_state \<Rightarrow> event \<Rightarrow> body_result" where
  "loop_body os v e =
     (case select_case os v e of
        (restart, Continue v1) \<Rightarrow>
          if restart > 1 \<or> restart > 0 \<and> length (oldWorkers v1) = 0
          then restart_block os v1 else Continue v1
      | (restart, r) \<Rightarrow> r)"

datatype loop_result =
    LReturn run_state "event list" \<comment> \<open>\<^verbatim>\<open>return nil\<close>, and the events not received yet\<close>
  | LPanic string run_state "event list"
  | LBlocked \<comment> \<open>waiting in \<^verbatim>\<open>select\<close> or in \<^verbatim>\<open>StartWorker\<close> when the events given end\<close>

fun supervise :: "os_env \<Rightarrow> run_state \<Rightarrow> event list \<Rightarrow> loop_result" where
  "supervise os v [] = LBlocked"
| "supervise os v (e # evs) =
     (case loop_body os v e of
        Continue v' \<Rightarrow> supervise os v' evs
      | Return v' \<Rightarrow> LReturn v' evs
      | BodyPanic m v' \<Rightarrow> LPanic m v' evs
      | Stuck \<Rightarrow> LBlocked)"

text \<open>
  The deferred function of \<^verbatim>\<open>Run\<close>. Its last loop reads the worker channel only, so a
  signal among the events stays unread; the loop ends when \<^verbatim>\<open>oldWorkers\<close> is empty, and
  blocks for ever when the exits given do not empty it. The result is the map at the end
  and the events after the last one read.
\<close>

fun drain :: "(int \<times> 64 word) list \<Rightarrow> event list \<Rightarrow> ((int \<times> 64 word) list \<times> event list) option" where
  "drain ow [] = (if length ow > 0 then None else Some (ow, []))"
| "drain ow (e # evs) =
     (if length ow > 0
      then (case e of
              WorkerExit pid status \<Rightarrow> drain (AList.delete pid ow) evs
            | SigRecv sig \<Rightarrow> drain ow evs)
      else Some (ow, e # evs))"

definition demote_current :: "run_state \<Rightarrow> (int \<times> 64 word) list" where
  "demote_current v =
     (case r_p v of
        Some pid \<Rightarrow> AList.update pid (generation (r_s v)) (oldWorkers v)
      | None \<Rightarrow> oldWorkers v)"

definition deferred :: "os_env \<Rightarrow> run_state \<Rightarrow> event list \<Rightarrow> (run_state \<times> event list) option" where
  "deferred os v evs =
     (let ow = demote_current v;
          w1 = signal_all os (sigToSend v) (map fst ow) (r_w v)
      in case drain ow evs of
           None \<Rightarrow> None
         | Some (ow', rest) \<Rightarrow> Some (v\<lparr>oldWorkers := ow', r_w := w1\<rparr>, rest))"

text \<open>The start of \<^verbatim>\<open>Run\<close>: the pid file, then one \<^verbatim>\<open>net.Listen\<close> per entry of \<^verbatim>\<open>s.ports\<close>.\<close>

definition write_pidFile :: "os_env \<Rightarrow> Starter \<Rightarrow> world \<Rightarrow> string + world" where
  "write_pidFile os s w =
     (if pidFile s \<noteq> []
      then (case OpenFile_err os (pidFile s) of
              Some e \<Rightarrow> Inl e
            | None \<Rightarrow> Inr (w\<lparr>files := (files w)(pidFile s \<mapsto> fmt_d (Getpid os))\<rparr>))
      else Inr w)"

datatype run_result = Returned "string option" | Panicked string

definition listen_address :: "string \<Rightarrow> string" where
  "listen_address addr =
     (case ParseInt addr of
        (port, True) \<Rightarrow> CHR '':'' # fmt_d port
      | (port, False) \<Rightarrow> addr)"

fun bind_ports :: "os_env \<Rightarrow> nat \<Rightarrow> string list \<Rightarrow> listener option list \<Rightarrow> (run_result \<times> listener option list) + listener option list" where
  "bind_ports os i [] ls = Inr ls"
| "bind_ports os i (addr # rest) ls =
     (case Listen_err os (listen_address addr) of
        Some e \<Rightarrow> Inl (Returned (Some e), ls)
      | None \<Rightarrow>
          if i < length ls
          then bind_ports os (Suc i) rest
                 (ls[i := Some \<lparr>l_addr = listen_address addr, l_closed = False\<rparr>])
          else Inl (Panicked ''index out of range'', ls))"

text \<open>
  How \<^verbatim>\<open>Run\<close> ends once its loop is left: the deferred function runs for a \<^verbatim>\<open>return nil\<close>
  and for a panic of the loop, and \<^verbatim>\<open>Run\<close> then returns nil or goes on panicking. \<open>None\<close>
  says that it has not ended when the attempts and events given end.
\<close>

definition run_deferred :: "os_env \<Rightarrow> loop_result \<Rightarrow> (run_result \<times> Starter \<times> world) option" where
  "run_deferred os lr =
     (case lr of
        LBlocked \<Rightarrow> None
      | LReturn v' evs' \<Rightarrow>
          (case deferred os v' evs' of
             None \<Rightarrow> None
           | Some (v'', rest') \<Rightarrow> Some (Returned None, r_s v'', r_w v''))
      | LPanic m v' evs' \<Rightarrow>
          (case deferred os v' evs' of
             None \<Rightarrow> None
           | Some (v'', rest') \<Rightarrow> Some (Panicked m, r_s v'', r_w v'')))"

text \<open>
  \<^verbatim>\<open>Run\<close> without its first line. The deferred function is registered after the first
  \<^verbatim>\<open>StartWorker\<close>, so it does not run for an error or a panic before that.
\<close>

definition Run_body :: "os_env \<Rightarrow> Starter \<Rightarrow> world \<Rightarrow> attempt list \<Rightarrow> event list \<Rightarrow> (run_result \<times> Starter \<times> world) option" where
  "Run_body os s w atts evs =
     (case write_pidFile os s w of
        Inl e \<Rightarrow> Some (Returned (Some e), s, w)
      | Inr w1 \<Rightarrow>
          (case bind_ports os 0 (ports s) (listeners s) of
             Inl (r, ls) \<Rightarrow> Some (r, s\<lparr>listeners := ls\<rparr>, w1)
           | Inr ls \<Rightarrow>
               (let s1 = s\<lparr>listeners := ls, generation := 0\<rparr>;
                    w2 = Setenv ''SERVER_STARTER_GENERATION'' (fmt_d (sint (generation s1))) w1;
                    w3 = setEnv os w2
                in case StartWorker os s1 w3 atts of
                     SwRetrying s' w' \<Rightarrow> None
                   | SwPanic m s' w' \<Rightarrow> Some (Panicked m, s', w')
                   | SwReturn p' s' w' rest \<Rightarrow>
                       run_deferred os
                         (supervise os
                            \<lparr>r_s = s', r_w = setEnv os w', r_p = p', oldWorkers = [],
                             sigReceived = SigNil, sigToSend = SigNil, r_attempts = rest\<rparr>
                            evs))))"

text \<open>\<^verbatim>\<open>Run\<close>: \<^verbatim>\<open>defer s.Teardown()\<close> is its first line, so \<^verbatim>\<open>Teardown\<close> ends every run that
  returns or panics.\<close>

definition Run :: "os_env \<Rightarrow> Starter \<Rightarrow> world \<Rightarrow> attempt list \<Rightarrow> event list \<Rightarrow> (run_result \<times> Starter \<times> world) option" where
  "Run os s w atts evs =
     (case Run_body os s w atts evs of
        None \<Rightarrow> None
      | Some (r, s', w') \<Rightarrow> Some (r, Teardown s' w'))"

section \<open>Projections used in the statements\<close>

text \<open>Two Starters have the same configuration when they differ in the generation at most.\<close>

definition same_config :: "Starter \<Rightarrow> Starter \<Rightarrow> bool" where
  "same_config s s' = (s' = s\<lparr>generation := generation s'\<rparr>)"

text \<open>The Starter, the world and the loop state that a result carries.\<close>

fun sw_starter :: "sw_result \<Rightarrow> Starter" where
  "sw_starter (SwReturn p s w rest) = s"
| "sw_starter (SwPanic m s w) = s"
| "sw_starter (SwRetrying s w) = s"

fun body_starter :: "run_state \<Rightarrow> body_result \<Rightarrow> Starter" where
  "body_starter v (Continue v') = r_s v'"
| "body_starter v (Return v') = r_s v'"
| "body_starter v (BodyPanic m v') = r_s v'"
| "body_starter v Stuck = r_s v"

fun loop_state :: "loop_result \<Rightarrow> run_state option" where
  "loop_state (LReturn v evs) = Some v"
| "loop_state (LPanic m v evs) = Some v"
| "loop_state LBlocked = None"

text \<open>A slot of \<^verbatim>\<open>listeners\<close> holds no open listener: it is nil or was closed.\<close>

definition listener_closed :: "listener option \<Rightarrow> bool" where
  "listener_closed l = (case l of None \<Rightarrow> True | Some x \<Rightarrow> l_closed x)"

text \<open>
  The environments of the processes started, in order: one per \<^verbatim>\<open>cmd.Start()\<close> of a trace;
  and the value of \<^verbatim>\<open>SERVER_STARTER_GENERATION\<close> in each.
\<close>

fun exec_envs :: "effect list \<Rightarrow> environment list" where
  "exec_envs [] = []"
| "exec_envs (Exec c a d fs env # es) = env # exec_envs es"
| "exec_envs (e # es) = exec_envs es"

definition exec_generations :: "effect list \<Rightarrow> string option list" where
  "exec_generations tr = map (\<lambda>env. env ''SERVER_STARTER_GENERATION'') (exec_envs tr)"

text \<open>
  \<open>gen_values g n\<close> are the generations \<open>g + 1, ..., g + n\<close> as \<^verbatim>\<open>%d\<close> prints them.
  \<open>spawns g w g' w'\<close>: from world \<open>w\<close> with the counter at \<open>g\<close> to world \<open>w'\<close> with the
  counter at \<open>g'\<close>, the trace has grown, each process started in between saw the next
  generation, and the counter has advanced by the number of processes started.
\<close>

definition gen_values :: "64 word \<Rightarrow> nat \<Rightarrow> string option list" where
  "gen_values g n = map (\<lambda>i. Some (fmt_d (sint (g + of_nat (Suc i))))) [0..<n]"

definition spawns :: "64 word \<Rightarrow> world \<Rightarrow> 64 word \<Rightarrow> world \<Rightarrow> bool" where
  "spawns g w g' w' =
     (\<exists>new. trace w' = trace w @ new \<and>
            exec_generations new = gen_values g (length (exec_envs new)) \<and>
            g' = g + of_nat (length (exec_envs new)))"

fun attempt_world :: "(int option \<times> world) + world \<Rightarrow> world" where
  "attempt_world (Inl (p, w)) = w"
| "attempt_world (Inr w) = w"

fun sw_world :: "sw_result \<Rightarrow> world" where
  "sw_world (SwReturn p s w rest) = w"
| "sw_world (SwPanic m s w) = w"
| "sw_world (SwRetrying s w) = w"

fun sw_ended :: "sw_result \<Rightarrow> bool" where
  "sw_ended (SwRetrying s w) = False"
| "sw_ended r = True"

fun body_world :: "run_state \<Rightarrow> body_result \<Rightarrow> world" where
  "body_world v (Continue v') = r_w v'"
| "body_world v (Return v') = r_w v'"
| "body_world v (BodyPanic m v') = r_w v'"
| "body_world v Stuck = r_w v"

definition body_spawns :: "run_state \<Rightarrow> body_result \<Rightarrow> bool" where
  "body_spawns v r =
     spawns (generation (r_s v)) (r_w v) (generation (body_starter v r)) (body_world v r)"

text \<open>The entry of \<^verbatim>\<open>SERVER_STARTER_PORT\<close> for the port at index \<open>k\<close>; a slot with an open
  listener.\<close>

definition port_pair :: "Starter \<Rightarrow> nat \<Rightarrow> string" where
  "port_pair s k = ports s ! k @ ''='' @ fmt_d (int k + 3)"

definition listener_open :: "listener option \<Rightarrow> bool" where
  "listener_open l = (case l of None \<Rightarrow> False | Some x \<Rightarrow> \<not> l_closed x)"

text \<open>
  The pids whose exit is among some events; the pids \<^verbatim>\<open>Run\<close> tracks in a state of its loop
  (the old workers and the current worker); and that \<^verbatim>\<open>os.FindProcess\<close> finds each of them.
\<close>

fun exit_pids :: "event list \<Rightarrow> int list" where
  "exit_pids [] = []"
| "exit_pids (WorkerExit pid status # evs) = pid # exit_pids evs"
| "exit_pids (SigRecv sig # evs) = exit_pids evs"

definition tracked :: "run_state \<Rightarrow> int list" where
  "tracked v = map fst (demote_current v)"

definition tracked_found :: "os_env \<Rightarrow> run_state \<Rightarrow> bool" where
  "tracked_found os v = list_all (\<lambda>pid. \<not> FindProcess_err os pid) (tracked v)"

text \<open>An attempt that falls through to the retry; and listeners from which every attempt can
  take its descriptors: as many as ports, and each of them open.\<close>

definition attempt_fails :: "os_env \<Rightarrow> attempt \<Rightarrow> bool" where
  "attempt_fails os a =
     (case a of
        StartError e \<Rightarrow> True
      | Started pid sigs \<Rightarrow> \<not> gotSig_of sigs \<and> FindProcess_err os pid)"

definition listeners_usable :: "Starter \<Rightarrow> bool" where
  "listeners_usable s =
     (list_all listener_open (listeners s) \<and> length (listeners s) = length (ports s))"



section \<open>Concrete inputs\<close>

text \<open>
  The inputs at which the theorems below are instantiated: a configuration with one port,
  the same with a path added, a system on which every call succeeds (\<^verbatim>\<open>os.FindProcess\<close>
  included, as on Unix), the Starter after \<^verbatim>\<open>Run\<close> has bound its port, and two states of
  the loop (a first worker running; a second one running while the first drains).
\<close>

definition example_config :: Config where
  "example_config =
     \<lparr>Args = [], Command = ''server'', Dir = [], Interval = Second, PidFile = ''/tmp/starter.pid'',
      Ports = [''8080''], Paths = [], SignalOnHUP = SigNil, SignalOnTERM = SigNil,
      StatusFile = ''/tmp/starter.status''\<rparr>"

definition example_world :: world where
  "example_world =
     \<lparr>environ = Map.empty,
      files = [''/tmp/starter.status'' \<mapsto> ''1:100''],
      open_files = [], next_file = 0, trace = []\<rparr>"

definition example_os :: os_env where
  "example_os =
     \<lparr>Getpid = 4242, OpenFile_err = (\<lambda>path. None), Listen_err = (\<lambda>addr. None),
      FindProcess_err = (\<lambda>pid. False), reloadEnv = []\<rparr>"

definition example_starter :: Starter where
  "example_starter = projr (NewStarter (Some example_config))"

definition example_attempts :: "attempt list" where
  "example_attempts = [Started 100 []]"

definition example_events :: "event list" where
  "example_events = [SigRecv (Sys SIGTERM), WorkerExit 100 0]"

definition example_bound :: Starter where
  "example_bound = example_starter\<lparr>listeners := [Some \<lparr>l_addr = '':8080'', l_closed = False\<rparr>]\<rparr>"

definition example_attempts2 :: "attempt list" where
  "example_attempts2 = [StartError ''exec format error'', Started 100 []]"

definition example_config_paths :: Config where
  "example_config_paths = example_config\<lparr>Paths := [''/tmp/app.sock'']\<rparr>"

definition example_starter_paths :: Starter where
  "example_starter_paths = projr (NewStarter (Some example_config_paths))"

definition example_bound_paths :: Starter where
  "example_bound_paths =
     example_starter_paths\<lparr>listeners := [Some \<lparr>l_addr = '':8080'', l_closed = False\<rparr>, None]\<rparr>"

definition example_draining :: run_state where
  "example_draining =
     \<lparr>r_s = example_bound\<lparr>generation := 2\<rparr>, r_w = example_world, r_p = Some 101,
      oldWorkers = [(100, 1)], sigReceived = SigNil, sigToSend = SigNil,
      r_attempts = [Started 102 []]\<rparr>"

definition example_fresh :: run_state where
  "example_fresh =
     \<lparr>r_s = example_bound\<lparr>generation := 1\<rparr>, r_w = example_world, r_p = Some 100,
      oldWorkers = [], sigReceived = SigNil, sigToSend = SigNil,
      r_attempts = [Started 101 []]\<rparr>"


definition example_attempts3 :: "attempt list" where
  "example_attempts3 = [Started 100 [], Started 101 [], Started 102 []]"

definition example_events_hup2 :: "event list" where
  "example_events_hup2 =
     [SigRecv (Sys SIGHUP), SigRecv (Sys SIGHUP), SigRecv (Sys SIGTERM),
      WorkerExit 100 0, WorkerExit 101 0]"

definition example_fresh_failing :: run_state where
  "example_fresh_failing =
     example_fresh\<lparr>r_attempts := [StartError ''exec format error'', Started 101 [], Started 102 []]\<rparr>"

section \<open>The signal name table\<close>

lemma init_niceNameToSigs: "niceNameToSigs (init g) = niceNameToSigs g"
  by (simp add: init_def Let_def)

lemma signame_table:
  "(sig, name) \<in> set niceSigNames_literal \<Longrightarrow> signame (init g) (Sys sig) = name"
  by (auto simp: niceSigNames_literal_def signame_def init_def Let_def)

lemma SigFromName_nil: "SigFromName (init globals_zero) n = SigNil"
  by (simp add: SigFromName_def init_niceNameToSigs) (simp add: globals_zero_def)

text \<open>
  Claim C7 says that the table works in both directions: \<^verbatim>\<open>signame\<close> gives the short name
  of a signal of the table, and \<^verbatim>\<open>SigFromName\<close> gives the signal of such a name, for example
  \<^verbatim>\<open>SIGTERM\<close> for \<^verbatim>\<open>"TERM"\<close>. After \<^verbatim>\<open>init\<close> the first direction holds, but the package
  variable \<^verbatim>\<open>niceNameToSigs\<close> is still nil, so \<^verbatim>\<open>SigFromName("TERM")\<close> is nil.
\<close>

theorem SigFromName_TERM_is_nil:
  "signame (init globals_zero) (Sys SIGTERM) = ''TERM'' \<and>
   SigFromName (init globals_zero) ''TERM'' = SigNil"
  by (simp add: SigFromName_def signame_def init_def Let_def globals_zero_def
      niceSigNames_literal_def)

section \<open>NewStarter\<close>

text \<open>
  Claim C10: \<^verbatim>\<open>NewStarter\<close> returns an error exactly when the configuration is nil or its
  command is the empty string. For every other configuration it returns a Starter, whatever
  the port and path lists are, and a nil \<^verbatim>\<open>SignalOnHUP()\<close> or \<^verbatim>\<open>SignalOnTERM()\<close> is replaced by
  \<^verbatim>\<open>SIGTERM\<close> (a signal that is given is kept).
\<close>

theorem NewStarter_error_iff:
  "(isl (NewStarter c) \<longleftrightarrow> c = None \<or> (\<exists>cfg. c = Some cfg \<and> Command cfg = [])) \<and>
   (\<forall>cfg. c = Some cfg \<and> Command cfg \<noteq> [] \<longrightarrow>
      (\<exists>s. NewStarter c = Inr s \<and>
           signalOnHUP s = (if SignalOnHUP cfg = SigNil then Sys SIGTERM else SignalOnHUP cfg) \<and>
           signalOnTERM s = (if SignalOnTERM cfg = SigNil then Sys SIGTERM else SignalOnTERM cfg) \<and>
           ports s = Ports cfg \<and> paths s = Paths cfg \<and> command s = Command cfg))"
  by (cases c) (auto simp: NewStarter_def Let_def)

theorem NewStarter_error_iff_witness:
  "\<not> isl (NewStarter (Some example_config)) \<and>
   (\<exists>s. NewStarter (Some example_config) = Inr s \<and>
        signalOnHUP s = Sys SIGTERM \<and> signalOnTERM s = Sys SIGTERM \<and>
        ports s = [''8080''] \<and> paths s = [] \<and> command s = ''server'')"
  using NewStarter_error_iff [of "Some example_config"]
  by (simp add: example_config_def)

section \<open>The kill delay\<close>

lemma is_digit_not_sign: "is_digit c \<Longrightarrow> c \<noteq> CHR ''+'' \<and> c \<noteq> CHR ''-''"
  by (auto simp: is_digit_def)

lemma strip_sign_digits: "list_all is_digit ds \<Longrightarrow> strip_sign ds = ds"
  by (cases ds) (auto simp: strip_sign_def dest: is_digit_not_sign)

lemma ParseInt_digits:
  assumes "ds \<noteq> []" "list_all is_digit ds" "dec_value ds < 2 ^ 63"
  shows "ParseInt ds = (int (dec_value ds), True)"
proof -
  obtain c cs where ds: "ds = c # cs" using assms(1) by (cases ds) auto
  with assms(2) have "is_digit c" by simp
  then have "c \<noteq> CHR ''-''" using is_digit_not_sign by auto
  then show ?thesis using assms ds strip_sign_digits [OF assms(2)]
    by (simp add: ParseInt_def Let_def)
qed

lemma ParseInt_minus_digits:
  assumes "ds \<noteq> []" "list_all is_digit ds" "dec_value ds \<le> 2 ^ 63"
  shows "ParseInt (CHR ''-'' # ds) = (- int (dec_value ds), True)"
  using assms by (simp add: ParseInt_def Let_def strip_sign_def)

lemma ParseInt_plus_digits:
  assumes "ds \<noteq> []" "list_all is_digit ds" "dec_value ds < 2 ^ 63"
  shows "ParseInt (CHR ''+'' # ds) = (int (dec_value ds), True)"
  using assms by (simp add: ParseInt_def Let_def strip_sign_def)

lemma ParseInt_zero:
  assumes "strip_sign k = [] \<or> \<not> list_all is_digit (strip_sign k) \<or> dec_value (strip_sign k) = 0"
  shows "fst (ParseInt k) = 0"
  using assms by (auto simp: ParseInt_def Let_def strip_sign_def split: if_splits)

lemma sint_seconds:
  assumes "- 9223372036 \<le> n" "n \<le> 9223372036"
  shows "sint (word_of_int n * Second :: 64 word) = n * 1000000000"
proof -
  have "word_of_int n * Second = (word_of_int (n * 1000000000) :: 64 word)"
    by (simp add: Second_def)
  moreover have "sint (word_of_int (n * 1000000000) :: 64 word) = n * 1000000000"
    unfolding sint_sbintrunc' using assms by (intro signed_take_bit_int_eq_self) auto
  ultimately show ?thesis by simp
qed

lemma getKillOldDelay_nonzero:
  assumes "fst (ParseInt (Getenv e ''KILL_OLD_DELAY'')) = n" "n \<noteq> 0"
  shows "getKillOldDelay e = word_of_int n * Second"
  using assms by (simp add: getKillOldDelay_def Let_def)

lemma getKillOldDelay_zero:
  assumes "fst (ParseInt (Getenv e ''KILL_OLD_DELAY'')) = 0"
  shows "getKillOldDelay e =
           (if fst (ParseBool (Getenv e ''ENABLE_AUTO_RESTART'')) then 5 * Second else 0)"
  using assms by (simp add: getKillOldDelay_def Let_def)

text \<open>
  Claim C8, as the code has it: when \<^verbatim>\<open>KILL_OLD_DELAY\<close> is a decimal integer \<open>n\<close> with
  \<open>0 < n \<le> 9223372036\<close>, written with or without a leading \<open>+\<close>, the result is \<open>n\<close> seconds;
  when it is \<open>-n\<close> for such an \<open>n\<close> the result is the negative duration of \<open>-n\<close> seconds
  (not 0); and when it parses to 0 (unset or empty, not a decimal integer, or zero) the
  result is 5 seconds if \<^verbatim>\<open>ENABLE_AUTO_RESTART\<close> parses as true and 0 otherwise.
\<close>

theorem getKillOldDelay_value:
  "(ds \<noteq> [] \<and> list_all is_digit ds \<and> 0 < dec_value ds \<and> dec_value ds \<le> 9223372036 \<and>
      (Getenv e ''KILL_OLD_DELAY'' = ds \<or> Getenv e ''KILL_OLD_DELAY'' = CHR ''+'' # ds)
      \<longrightarrow> sint (getKillOldDelay e) = int (dec_value ds) * 1000000000) \<and>
   (ds \<noteq> [] \<and> list_all is_digit ds \<and> 0 < dec_value ds \<and> dec_value ds \<le> 9223372036 \<and>
      Getenv e ''KILL_OLD_DELAY'' = CHR ''-'' # ds
      \<longrightarrow> sint (getKillOldDelay e) = - (int (dec_value ds) * 1000000000)) \<and>
   (strip_sign (Getenv e ''KILL_OLD_DELAY'') = [] \<or>
      \<not> list_all is_digit (strip_sign (Getenv e ''KILL_OLD_DELAY'')) \<or>
      dec_value (strip_sign (Getenv e ''KILL_OLD_DELAY'')) = 0
      \<longrightarrow> getKillOldDelay e =
            (if fst (ParseBool (Getenv e ''ENABLE_AUTO_RESTART'')) then 5 * Second else 0))"
proof (intro conjI impI)
  assume a: "ds \<noteq> [] \<and> list_all is_digit ds \<and> 0 < dec_value ds \<and> dec_value ds \<le> 9223372036 \<and>
      (Getenv e ''KILL_OLD_DELAY'' = ds \<or> Getenv e ''KILL_OLD_DELAY'' = CHR ''+'' # ds)"
  then have "ParseInt ds = (int (dec_value ds), True)"
    "ParseInt (CHR ''+'' # ds) = (int (dec_value ds), True)"
    by (auto intro!: ParseInt_digits ParseInt_plus_digits)
  with a have "fst (ParseInt (Getenv e ''KILL_OLD_DELAY'')) = int (dec_value ds)" by auto
  with a have "getKillOldDelay e = word_of_int (int (dec_value ds)) * Second"
    by (intro getKillOldDelay_nonzero) auto
  then show "sint (getKillOldDelay e) = int (dec_value ds) * 1000000000"
    using a sint_seconds [of "int (dec_value ds)"] by simp
next
  assume a: "ds \<noteq> [] \<and> list_all is_digit ds \<and> 0 < dec_value ds \<and> dec_value ds \<le> 9223372036 \<and>
      Getenv e ''KILL_OLD_DELAY'' = CHR ''-'' # ds"
  then have "ParseInt (CHR ''-'' # ds) = (- int (dec_value ds), True)"
    by (intro ParseInt_minus_digits) auto
  with a have "getKillOldDelay e = word_of_int (- int (dec_value ds)) * Second"
    by (intro getKillOldDelay_nonzero) auto
  then show "sint (getKillOldDelay e) = - (int (dec_value ds) * 1000000000)"
    using a sint_seconds [of "- int (dec_value ds)"] by simp
next
  assume "strip_sign (Getenv e ''KILL_OLD_DELAY'') = [] \<or>
      \<not> list_all is_digit (strip_sign (Getenv e ''KILL_OLD_DELAY'')) \<or>
      dec_value (strip_sign (Getenv e ''KILL_OLD_DELAY'')) = 0"
  then have "fst (ParseInt (Getenv e ''KILL_OLD_DELAY'')) = 0" by (rule ParseInt_zero)
  then show "getKillOldDelay e =
            (if fst (ParseBool (Getenv e ''ENABLE_AUTO_RESTART'')) then 5 * Second else 0)"
    by (rule getKillOldDelay_zero)
qed

text \<open>
  Where claim C8 fails as stated: for \<^verbatim>\<open>KILL_OLD_DELAY=-3\<close>, which is not positive, the result
  is \<open>-3\<close> seconds and not 0; for \<^verbatim>\<open>KILL_OLD_DELAY=0\<close>, which is set, with
  \<^verbatim>\<open>ENABLE_AUTO_RESTART=true\<close> the result is 5 seconds and not 0; and for the positive
  integer 9223372037 the product with \<^verbatim>\<open>time.Second\<close> wraps to a negative duration.
\<close>

theorem getKillOldDelay_counterexample:
  "sint (getKillOldDelay [''KILL_OLD_DELAY'' \<mapsto> ''-3'']) = - 3000000000 \<and>
   getKillOldDelay [''KILL_OLD_DELAY'' \<mapsto> ''-3''] \<noteq> 0 \<and>
   sint (getKillOldDelay [''KILL_OLD_DELAY'' \<mapsto> ''0'', ''ENABLE_AUTO_RESTART'' \<mapsto> ''true'']) = 5000000000 \<and>
   sint (getKillOldDelay [''KILL_OLD_DELAY'' \<mapsto> ''9223372037'']) = - 9223372036709551616"
  by (simp add: getKillOldDelay_def Let_def Getenv_def ParseInt_def ParseBool_def strip_sign_def
      is_digit_def dec_value_def digit_val_def Second_def)

theorem getKillOldDelay_value_witness:
  "sint (getKillOldDelay [''KILL_OLD_DELAY'' \<mapsto> ''10'']) = 10000000000 \<and>
   sint (getKillOldDelay [''KILL_OLD_DELAY'' \<mapsto> ''+10'']) = 10000000000 \<and>
   sint (getKillOldDelay [''KILL_OLD_DELAY'' \<mapsto> ''-10'']) = - 10000000000 \<and>
   getKillOldDelay [''ENABLE_AUTO_RESTART'' \<mapsto> ''1''] = 5 * Second \<and>
   getKillOldDelay [''KILL_OLD_DELAY'' \<mapsto> ''soon''] = 0"
  using getKillOldDelay_value [of "''10''" "[''KILL_OLD_DELAY'' \<mapsto> ''10'']"]
    getKillOldDelay_value [of "''10''" "[''KILL_OLD_DELAY'' \<mapsto> ''+10'']"]
    getKillOldDelay_value [of "''10''" "[''KILL_OLD_DELAY'' \<mapsto> ''-10'']"]
    getKillOldDelay_value [of "[]" "[''ENABLE_AUTO_RESTART'' \<mapsto> ''1'']"]
    getKillOldDelay_value [of "[]" "[''KILL_OLD_DELAY'' \<mapsto> ''soon'']"]
  by (simp add: Getenv_def is_digit_def dec_value_def digit_val_def strip_sign_def ParseBool_def)

section \<open>What StartWorker and the loop leave unchanged\<close>

lemma same_config_refl: "same_config s s"
  by (simp add: same_config_def)

lemma same_config_trans: "same_config s s1 \<Longrightarrow> same_config s1 s2 \<Longrightarrow> same_config s s2"
  by (cases s, cases s1, cases s2) (simp add: same_config_def)

lemma prepare_Inr:
  "prepare s w defers = Inr (s1, w2, st) \<Longrightarrow> s1 = s\<lparr>generation := generation s + 1\<rparr>"
  by (auto simp: prepare_def Let_def split: sum.splits prod.splits)

lemma prepare_same_config: "prepare s w defers = Inr (s1, w2, st) \<Longrightarrow> same_config s s1"
  by (drule prepare_Inr) (simp add: same_config_def)

lemma StartWorker_loop_same_config:
  "same_config s (sw_starter (StartWorker_loop os s w defers atts))"
proof (induction atts arbitrary: s w defers)
  case Nil
  show ?case
    by (auto simp: same_config_refl split: sum.split prod.split dest: prepare_same_config)
next
  case (Cons a rest)
  show ?case
  proof (cases "prepare s w defers")
    case (Inl e)
    then show ?thesis by (cases e) (simp add: same_config_refl)
  next
    case (Inr x)
    then obtain s1 w2 st where pr: "prepare s w defers = Inr (s1, w2, st)" by (cases x) auto
    note sc = prepare_same_config [OF pr]
    show ?thesis
    proof (cases "run_attempt os s1 w2 st a")
      case (Inl y)
      then show ?thesis using pr sc by (cases y) simp
    next
      case (Inr w')
      then show ?thesis using pr same_config_trans [OF sc Cons.IH [of s1 w' "i_defers st"]] by simp
    qed
  qed
qed

lemma StartWorker_same_config:
  "same_config s (sw_starter (StartWorker os s w atts))"
  by (simp add: StartWorker_def StartWorker_loop_same_config)

lemma select_case_same_config:
  "same_config (r_s v) (body_starter v (snd (select_case os v e)))"
proof (cases e)
  case (WorkerExit pid status)
  show ?thesis
    using StartWorker_same_config [of "r_s v" os "r_w v" "r_attempts v"]
    by (cases "StartWorker os (r_s v) (r_w v) (r_attempts v)")
       (auto simp: select_case_def WorkerExit same_config_refl split: option.split)
next
  case (SigRecv sig)
  then show ?thesis by (simp add: select_case_def Let_def same_config_refl)
qed

lemma restart_block_same_config:
  "same_config (r_s v) (body_starter v (restart_block os v))"
proof (cases "r_p v")
  case None
  then show ?thesis by (simp add: restart_block_def same_config_refl)
next
  case (Some cur)
  let ?v1 = "v\<lparr>oldWorkers := AList.update cur (generation (r_s v)) (oldWorkers v)\<rparr>"
  show ?thesis
    using StartWorker_same_config [of "r_s v" os "r_w v" "r_attempts v"] Some
    by (cases "StartWorker os (r_s v) (r_w v) (r_attempts v)")
       (auto simp: restart_block_def Let_def same_config_refl)
qed

lemma loop_body_same_config:
  "same_config (r_s v) (body_starter v (loop_body os v e))"
proof (cases "select_case os v e")
  case (Pair restart r)
  show ?thesis
  proof (cases r)
    case (Continue v1)
    with Pair have a: "same_config (r_s v) (r_s v1)"
      using select_case_same_config [of v os e] by simp
    have b: "same_config (r_s v1) (body_starter v1 (restart_block os v1))"
      by (rule restart_block_same_config)
    have c: "body_starter v (restart_block os v1) = body_starter v1 (restart_block os v1)
             \<or> restart_block os v1 = Stuck"
      by (cases "restart_block os v1") auto
    show ?thesis
      using Pair Continue a b c
      by (auto simp: loop_body_def same_config_refl intro: same_config_trans)
  qed (use Pair select_case_same_config [of v os e] in \<open>auto simp: loop_body_def\<close>)
qed

lemma supervise_same_config:
  "loop_state (supervise os v evs) = Some v' \<Longrightarrow> same_config (r_s v) (r_s v')"
proof (induction evs arbitrary: v)
  case Nil
  then show ?case by simp
next
  case (Cons e evs)
  show ?case
  proof (cases "loop_body os v e")
    case (Continue v1)
    with Cons.prems have "loop_state (supervise os v1 evs) = Some v'" by simp
    from Cons.IH [OF this] loop_body_same_config [of v os e] Continue
    show ?thesis by (auto intro: same_config_trans)
  qed (use Cons.prems loop_body_same_config [of v os e] in auto)
qed

lemma deferred_starter: "deferred os v evs = Some (v', rest) \<Longrightarrow> r_s v' = r_s v"
  by (auto simp: deferred_def Let_def split: option.splits prod.splits)

section \<open>Teardown\<close>

lemma same_config_pidFile: "same_config s s' \<Longrightarrow> pidFile s' = pidFile s"
  by (cases s, cases s') (simp add: same_config_def)

lemma Run_body_pidFile:
  assumes "Run_body os s w atts evs = Some (r, s1, w1)"
  shows "pidFile s1 = pidFile s"
proof (cases "write_pidFile os s w")
  case (Inl e)
  with assms show ?thesis by (simp add: Run_body_def)
next
  case (Inr wp)
  show ?thesis
  proof (cases "bind_ports os 0 (ports s) (listeners s)")
    case (Inl x)
    with assms Inr show ?thesis by (cases x) (auto simp: Run_body_def)
  next
    case bp: (Inr ls)
    let ?s1 = "s\<lparr>listeners := ls, generation := 0\<rparr>"
    let ?w3 = "setEnv os (Setenv ''SERVER_STARTER_GENERATION'' (fmt_d (sint (generation ?s1))) wp)"
    have sw: "same_config ?s1 (sw_starter (StartWorker os ?s1 ?w3 atts))"
      by (rule StartWorker_same_config)
    show ?thesis
    proof (cases "StartWorker os ?s1 ?w3 atts")
      case (SwRetrying s' w')
      with assms Inr bp show ?thesis by (simp add: Run_body_def run_deferred_def Let_def)
    next
      case (SwPanic m s' w')
      with assms Inr bp sw show ?thesis
        by (auto simp: Run_body_def Let_def dest: same_config_pidFile)
    next
      case (SwReturn p' s' w' rest)
      with sw have p1: "pidFile s' = pidFile s" by (auto dest: same_config_pidFile)
      let ?v = "\<lparr>r_s = s', r_w = setEnv os w', r_p = p', oldWorkers = [],
                 sigReceived = SigNil, sigToSend = SigNil, r_attempts = rest\<rparr>"
      show ?thesis
      proof (cases "supervise os ?v evs")
        case LBlocked
        with assms Inr bp SwReturn show ?thesis by (simp add: Run_body_def run_deferred_def Let_def)
      next
        case (LReturn v' evs')
        then have "same_config (r_s ?v) (r_s v')"
          using supervise_same_config [of os ?v evs v'] by simp
        then have "pidFile (r_s v') = pidFile s" using p1 by (auto dest: same_config_pidFile)
        with assms Inr bp SwReturn LReturn show ?thesis
          by (auto simp: Run_body_def run_deferred_def Let_def split: option.splits dest: deferred_starter)
      next
        case (LPanic m v' evs')
        then have "same_config (r_s ?v) (r_s v')"
          using supervise_same_config [of os ?v evs v'] by simp
        then have "pidFile (r_s v') = pidFile s" using p1 by (auto dest: same_config_pidFile)
        with assms Inr bp SwReturn LPanic show ?thesis
          by (auto simp: Run_body_def run_deferred_def Let_def split: option.splits dest: deferred_starter)
      qed
    qed
  qed
qed

lemma Teardown_files:
  "files (snd (Teardown s w)) = (if pidFile s \<noteq> [] then (files w)(pidFile s := None) else files w)"
  by (simp add: Teardown_def Remove_def)

lemma Teardown_listeners:
  "listeners (fst (Teardown s w)) = map close_listener (listeners s)"
  by (simp add: Teardown_def Let_def)

lemma Teardown_pidFile: "pidFile (fst (Teardown s w)) = pidFile s"
  by (simp add: Teardown_def Let_def)

lemma listener_closed_close: "listener_closed (close_listener l)"
  by (cases l) (simp_all add: listener_closed_def close_listener_def)

lemma example_starter_simps:
  "example_starter = \<lparr>interval = Second, signalOnHUP = Sys SIGTERM, signalOnTERM = Sys SIGTERM,
     statusFile = ''/tmp/starter.status'', pidFile = ''/tmp/starter.pid'', dir = [],
     ports = [''8080''], paths = [], listeners = [None], generation = 0,
     command = ''server'', args = []\<rparr>"
  by (simp add: example_starter_def NewStarter_def example_config_def)

lemma fmt_d_examples:
  "fmt_d 0 = ''0''" "fmt_d 1 = ''1''" "fmt_d 2 = ''2''" "fmt_d 3 = ''3''" "fmt_d 4 = ''4''"
  "fmt_d 4242 = ''4242''" "fmt_d 8080 = ''8080''"
  by (simp_all add: fmt_d_def nat_digits.simps digit_char_def)

lemma ParseInt_8080: "ParseInt ''8080'' = (8080, True)"
  by (simp add: ParseInt_def strip_sign_def is_digit_def dec_value_def digit_val_def Let_def)

lemma listen_address_8080: "listen_address ''8080'' = '':8080''"
  by (simp add: listen_address_def ParseInt_8080 fmt_d_examples)

lemma example_bind:
  "bind_ports example_os 0 (ports example_starter) (listeners example_starter) =
     Inr [Some \<lparr>l_addr = '':8080'', l_closed = False\<rparr>]"
  by (simp add: example_starter_simps example_os_def listen_address_8080)

lemma example_run:
  "\<exists>s' w'. Run example_os example_starter example_world example_attempts example_events
       = Some (Returned None, s', w')"
  by (simp add: Run_def Run_body_def run_deferred_def write_pidFile_def example_bind Let_def StartWorker_def
      prepare_def run_attempt_def example_attempts_def example_events_def loop_body_def
      select_case_def deferred_def demote_current_def setEnv_def Setenv_def Getenv_def emit_def
      close_files_def gotSig_of_def fmt_d_examples example_starter_simps example_os_def
      example_world_def Teardown_def Remove_def split: prod.splits)

text \<open>
  Claim C9, as the code has it: \<^verbatim>\<open>Teardown\<close> removes the pid file when one is configured,
  leaves every other file as it is (so it does not remove the status file), and closes
  every listener, passing over a nil entry; every run of \<^verbatim>\<open>Run\<close> that returns or panics
  ends with it, so then the pid file is gone and every listener is closed. The status file
  is removed, with the pid file, by \<^verbatim>\<open>Close\<close>.
\<close>

theorem Teardown_and_Close:
  "(pidFile s \<noteq> [] \<longrightarrow> files (snd (Teardown s w)) (pidFile s) = None) \<and>
   (\<forall>path. path \<noteq> pidFile s \<longrightarrow> files (snd (Teardown s w)) path = files w path) \<and>
   listeners (fst (Teardown s w)) = map close_listener (listeners s) \<and>
   list_all listener_closed (listeners (fst (Teardown s w))) \<and>
   (Run os s w atts evs = Some (r, s', w') \<longrightarrow>
      (pidFile s \<noteq> [] \<longrightarrow> files w' (pidFile s) = None) \<and> list_all listener_closed (listeners s')) \<and>
   (statusFile s \<noteq> [] \<longrightarrow> files (Close s w) (statusFile s) = None) \<and>
   (pidFile s \<noteq> [] \<longrightarrow> files (Close s w) (pidFile s) = None)"
proof (intro conjI)
  show "pidFile s \<noteq> [] \<longrightarrow> files (snd (Teardown s w)) (pidFile s) = None"
    by (simp add: Teardown_files)
  show "\<forall>path. path \<noteq> pidFile s \<longrightarrow> files (snd (Teardown s w)) path = files w path"
    by (simp add: Teardown_files)
  show "listeners (fst (Teardown s w)) = map close_listener (listeners s)"
    by (rule Teardown_listeners)
  show "list_all listener_closed (listeners (fst (Teardown s w)))"
    by (simp add: Teardown_listeners list_all_iff listener_closed_close)
  show "Run os s w atts evs = Some (r, s', w') \<longrightarrow>
      (pidFile s \<noteq> [] \<longrightarrow> files w' (pidFile s) = None) \<and> list_all listener_closed (listeners s')"
  proof
    assume run: "Run os s w atts evs = Some (r, s', w')"
    then obtain s1 w1 where rb: "Run_body os s w atts evs = Some (r, s1, w1)"
      and td: "Teardown s1 w1 = (s', w')"
      by (auto simp: Run_def split: option.splits)
    from rb have pf: "pidFile s1 = pidFile s" by (rule Run_body_pidFile)
    from td have "s' = fst (Teardown s1 w1)" "w' = snd (Teardown s1 w1)" by simp_all
    then show "(pidFile s \<noteq> [] \<longrightarrow> files w' (pidFile s) = None) \<and> list_all listener_closed (listeners s')"
      using pf by (simp add: Teardown_files Teardown_listeners list_all_iff listener_closed_close)
  qed
  show "statusFile s \<noteq> [] \<longrightarrow> files (Close s w) (statusFile s) = None"
    by (simp add: Close_def Remove_def Let_def)
  show "pidFile s \<noteq> [] \<longrightarrow> files (Close s w) (pidFile s) = None"
    by (simp add: Close_def Remove_def Let_def)
qed

theorem Teardown_and_Close_witness:
  "\<exists>s' w'. Run example_os example_starter example_world example_attempts example_events
            = Some (Returned None, s', w') \<and>
          files w' ''/tmp/starter.pid'' = None \<and>
          list_all listener_closed (listeners s') \<and>
          files (Close example_starter example_world) ''/tmp/starter.status'' = None \<and>
          files (snd (Teardown example_starter example_world)) ''/tmp/starter.pid'' = None"
proof -
  from example_run obtain s' w' where
    run: "Run example_os example_starter example_world example_attempts example_events
            = Some (Returned None, s', w')"
    by blast
  from Teardown_and_Close [where s = example_starter and w = example_world and os = example_os
      and atts = example_attempts and evs = example_events and r = "Returned None"
      and s' = s' and w' = w'] run
  show ?thesis by (simp add: example_starter_simps)
qed

text \<open>
  Where claim C9 fails as stated: with a status file configured and present, it is still
  there after \<^verbatim>\<open>Teardown\<close>.
\<close>

theorem Teardown_keeps_statusFile:
  "statusFile example_starter = ''/tmp/starter.status'' \<and>
   files example_world ''/tmp/starter.status'' = Some ''1:100'' \<and>
   files (snd (Teardown example_starter example_world)) ''/tmp/starter.status'' = Some ''1:100''"
  by (simp add: example_starter_simps example_world_def Teardown_def Remove_def)


section \<open>StartWorker retries\<close>

lemma all_HUP_no_gotSig: "set sigs \<subseteq> {Sys SIGHUP} \<Longrightarrow> \<not> gotSig_of sigs"
  by (auto simp: gotSig_of_def list_ex_iff)

lemma run_attempt_not_found:
  assumes "set sigs \<subseteq> {Sys SIGHUP}" "FindProcess_err os pid"
  shows "run_attempt os s w st (Started pid sigs) =
           Inr (fall_through pid (i_files st)
                  (fold (\<lambda>sig. emit (Resend sig)) sigs
                     (emit (Exec (command s) (args s) (dir s) (i_files st) (environ w)) w)))"
  using assms all_HUP_no_gotSig [OF assms(1)] by (simp add: run_attempt_def Let_def)

lemma fall_through_open_files:
  "set (open_files (fall_through pid fs w)) \<inter> set (List.map_filter id fs) = {}"
  by (auto simp: fall_through_def close_files_def emit_def)

lemma fall_through_trace: "trace (fall_through pid fs w) = trace w @ [Wait pid]"
  by (simp add: fall_through_def close_files_def emit_def)

lemma StartWorker_loop_never_dead:
  "FindProcess_err os pid \<Longrightarrow> StartWorker_loop os s w defers atts \<noteq> SwReturn (Some pid) s' w' rest"
proof (induction atts arbitrary: s w defers)
  case Nil
  then show ?case by (auto split: sum.splits prod.splits)
next
  case (Cons a atts)
  show ?case
  proof (cases "prepare s w defers")
    case (Inl e)
    then show ?thesis by (cases e) simp
  next
    case (Inr x)
    then obtain s1 w2 st where pr: "prepare s w defers = Inr (s1, w2, st)" by (cases x) auto
    show ?thesis
    proof (cases "run_attempt os s1 w2 st a")
      case (Inl y)
      then obtain p' w3 where y: "run_attempt os s1 w2 st a = Inl (p', w3)" by (cases y) auto
      then have "p' \<noteq> Some pid" using Cons.prems
        by (cases a) (auto simp: run_attempt_def Let_def split: if_splits)
      with pr y show ?thesis by simp
    next
      case (Inr w3)
      with pr Cons.IH [OF Cons.prems, of s1 w3 "i_defers st"] show ?thesis by simp
    qed
  qed
qed

section \<open>Spawn attempts and the generation\<close>

lemma exec_envs_append: "exec_envs (a @ b) = exec_envs a @ exec_envs b"
proof (induction a)
  case Nil
  show ?case by simp
next
  case (Cons e a)
  then show ?case by (cases e) simp_all
qed

lemma gen_values_add: "gen_values g (n + m) = gen_values g n @ gen_values (g + of_nat n) m"
  by (induction m) (simp_all add: gen_values_def add.assoc add.commute add.left_commute)

lemma spawns_refl: "spawns g w g w"
  by (simp add: spawns_def exec_generations_def gen_values_def)

lemma spawns_trans:
  assumes "spawns g w g1 w1" "spawns g1 w1 g2 w2"
  shows "spawns g w g2 w2"
proof -
  from assms(1) obtain a where a: "trace w1 = trace w @ a"
    "exec_generations a = gen_values g (length (exec_envs a))"
    "g1 = g + of_nat (length (exec_envs a))"
    by (auto simp: spawns_def)
  from assms(2) obtain b where b: "trace w2 = trace w1 @ b"
    "exec_generations b = gen_values g1 (length (exec_envs b))"
    "g2 = g1 + of_nat (length (exec_envs b))"
    by (auto simp: spawns_def)
  have "exec_generations (a @ b) = gen_values g (length (exec_envs (a @ b)))"
    using a b by (simp add: exec_generations_def exec_envs_append gen_values_add)
  moreover have "g2 = g + of_nat (length (exec_envs (a @ b)))"
    using a b by (simp add: exec_envs_append)
  moreover have "trace w2 = trace w @ (a @ b)" using a b by simp
  ultimately show ?thesis unfolding spawns_def by blast
qed

lemma spawns_quiet:
  "trace w' = trace w @ new \<Longrightarrow> exec_envs new = [] \<Longrightarrow> spawns g w g w'"
  unfolding spawns_def by (rule exI [of _ new]) (simp add: exec_generations_def gen_values_def)

lemma spawns_same_trace: "trace w' = trace w \<Longrightarrow> spawns g w g w'"
  by (rule spawns_quiet [of _ _ "[]"]) simp_all

lemma inherit_loop_trace:
  "inherit_loop s i ls st = Inr st' \<Longrightarrow> trace (i_world st') = trace (i_world st)"
  "inherit_loop s i ls st = Inl (msg, st') \<Longrightarrow> trace (i_world st') = trace (i_world st)"
proof (induction ls arbitrary: i st)
  case Nil
  { case 1 then show ?case by simp }
  { case 2 then show ?case by simp }
next
  case (Cons l ls)
  { case 1
    then show ?case
      by (auto simp: Let_def split: option.splits if_splits dest!: Cons.IH(1)) }
  { case 2
    then show ?case
      by (auto simp: Let_def split: option.splits if_splits dest!: Cons.IH(2)) }
qed

lemma prepare_Inr_facts:
  assumes "prepare s w defers = Inr (s1, w2, st)"
  shows "trace w2 = trace w" "generation s1 = generation s + 1"
    "environ w2 ''SERVER_STARTER_GENERATION'' = Some (fmt_d (sint (generation s + 1)))"
  using assms
  by (auto simp: prepare_def Let_def Setenv_def split: sum.splits prod.splits
      dest: inherit_loop_trace(1))

lemma prepare_Inl_trace:
  "prepare s w defers = Inl (msg, w') \<Longrightarrow> trace w' = trace w"
  by (auto simp: prepare_def Let_def close_files_def split: sum.splits prod.splits
      dest: inherit_loop_trace(2))

lemma fold_Resend_trace:
  "trace (fold (\<lambda>sig. emit (Resend sig)) sigs w) = trace w @ map Resend sigs"
  by (induction sigs arbitrary: w) (simp_all add: emit_def)

lemma fold_Resend_environ:
  "environ (fold (\<lambda>sig. emit (Resend sig)) sigs w) = environ w"
  by (induction sigs arbitrary: w) (simp_all add: emit_def)

lemma exec_envs_Resend: "exec_envs (map Resend sigs) = []"
  by (induction sigs) simp_all

lemma run_attempt_trace:
  "\<exists>quiet. trace (attempt_world (run_attempt os s w st a))
            = trace w @ Exec (command s) (args s) (dir s) (i_files st) (environ w) # quiet \<and>
          exec_envs quiet = []"
proof (cases a)
  case (StartError e)
  show ?thesis
    by (rule exI [of _ "[Wait (- 1)]"])
       (simp add: StartError run_attempt_def Let_def fall_through_def close_files_def emit_def)
next
  case (Started pid sigs)
  show ?thesis
  proof (cases "gotSig_of sigs \<or> \<not> FindProcess_err os pid")
    case True
    then show ?thesis
      by (intro exI [of _ "map Resend sigs @ [Reap pid]"])
         (auto simp: Started run_attempt_def Let_def close_files_def emit_def fold_Resend_trace
           exec_envs_append exec_envs_Resend)
  next
    case False
    then show ?thesis
      by (intro exI [of _ "map Resend sigs @ [Wait pid]"])
         (auto simp: Started run_attempt_def Let_def fall_through_def close_files_def emit_def
           fold_Resend_trace exec_envs_append exec_envs_Resend)
  qed
qed

lemma attempt_spawns:
  assumes "prepare s w defers = Inr (s1, w2, st)"
  shows "spawns (generation s) w (generation s1) (attempt_world (run_attempt os s1 w2 st a))"
proof -
  note f = prepare_Inr_facts [OF assms]
  from run_attempt_trace [of os s1 w2 st a] obtain quiet where
    q: "trace (attempt_world (run_attempt os s1 w2 st a))
          = trace w2 @ Exec (command s1) (args s1) (dir s1) (i_files st) (environ w2) # quiet"
      "exec_envs quiet = []"
    by blast
  show ?thesis
    unfolding spawns_def
    by (rule exI [of _ "Exec (command s1) (args s1) (dir s1) (i_files st) (environ w2) # quiet"])
       (simp add: q f exec_generations_def gen_values_def)
qed

lemma StartWorker_loop_spawns:
  "sw_ended (StartWorker_loop os s w defers atts) \<Longrightarrow>
   spawns (generation s) w (generation (sw_starter (StartWorker_loop os s w defers atts)))
     (sw_world (StartWorker_loop os s w defers atts))"
proof (induction atts arbitrary: s w defers)
  case Nil
  then show ?case
    by (auto split: sum.splits prod.splits intro: spawns_same_trace dest: prepare_Inl_trace)
next
  case (Cons a atts)
  show ?case
  proof (cases "prepare s w defers")
    case (Inl e)
    then show ?thesis
      by (cases e) (auto intro: spawns_same_trace dest: prepare_Inl_trace)
  next
    case (Inr x)
    then obtain s1 w2 st where pr: "prepare s w defers = Inr (s1, w2, st)" by (cases x) auto
    note sp = attempt_spawns [OF pr, of os a]
    show ?thesis
    proof (cases "run_attempt os s1 w2 st a")
      case (Inl y)
      then show ?thesis using pr sp by (cases y) simp
    next
      case (Inr w')
      with pr Cons.prems have "sw_ended (StartWorker_loop os s1 w' (i_defers st) atts)" by simp
      from Cons.IH [OF this] sp Inr pr show ?thesis by (auto intro: spawns_trans)
    qed
  qed
qed

section \<open>The loop and the generation\<close>

lemma StartWorker_spawns:
  "sw_ended (StartWorker os s w atts) \<Longrightarrow>
   spawns (generation s) w (generation (sw_starter (StartWorker os s w atts)))
     (sw_world (StartWorker os s w atts))"
  unfolding StartWorker_def by (rule StartWorker_loop_spawns)

lemma signal_all_trace:
  "\<exists>quiet. trace (signal_all os sig pids w) = trace w @ quiet \<and> exec_envs quiet = []"
proof (induction pids arbitrary: w)
  case Nil
  show ?case by simp
next
  case (Cons pid pids)
  show ?case
  proof (cases "FindProcess_err os pid")
    case True
    with Cons.IH [of w] show ?thesis by simp
  next
    case False
    from Cons.IH [of "emit (Signal pid sig) w"] obtain quiet where
      "trace (signal_all os sig pids (emit (Signal pid sig) w))
         = trace (emit (Signal pid sig) w) @ quiet" "exec_envs quiet = []"
      by blast
    with False show ?thesis
      by (intro exI [of _ "Signal pid sig # quiet"]) (simp add: emit_def)
  qed
qed

lemma signal_all_spawns: "spawns g w g (signal_all os sig pids w)"
  using signal_all_trace [of os sig pids w] by (auto intro: spawns_quiet)

lemma emit_Sleep_spawns: "spawns g w g (emit (Sleep d) w)"
  by (rule spawns_quiet [of _ _ "[Sleep d]"]) (simp_all add: emit_def)

lemma body_spawns_Stuck: "body_spawns v Stuck"
  by (simp add: body_spawns_def spawns_refl)

lemma select_case_spawns: "body_spawns v (snd (select_case os v e))"
proof (cases e)
  case (WorkerExit pid status)
  show ?thesis
  proof (cases "StartWorker os (r_s v) (r_w v) (r_attempts v)")
    case (SwRetrying s' w')
    then show ?thesis
      by (auto simp: select_case_def WorkerExit body_spawns_def spawns_refl split: option.split)
  next
    case (SwReturn p' s' w' rest)
    with StartWorker_spawns [of os "r_s v" "r_w v" "r_attempts v"] show ?thesis
      by (auto simp: select_case_def WorkerExit body_spawns_def spawns_refl split: option.split)
  next
    case (SwPanic m s' w')
    with StartWorker_spawns [of os "r_s v" "r_w v" "r_attempts v"] show ?thesis
      by (auto simp: select_case_def WorkerExit body_spawns_def spawns_refl split: option.split)
  qed
next
  case (SigRecv sig)
  then show ?thesis by (simp add: select_case_def Let_def body_spawns_def spawns_refl)
qed

lemma restart_block_spawns: "body_spawns v (restart_block os v)"
proof (cases "r_p v")
  case None
  then show ?thesis by (simp add: restart_block_def body_spawns_def spawns_refl)
next
  case (Some cur)
  let ?v1 = "v\<lparr>oldWorkers := AList.update cur (generation (r_s v)) (oldWorkers v)\<rparr>"
  show ?thesis
  proof (cases "StartWorker os (r_s v) (r_w v) (r_attempts v)")
    case (SwRetrying s' w')
    with Some show ?thesis by (simp add: restart_block_def Let_def body_spawns_Stuck)
  next
    case (SwPanic m s' w')
    with Some StartWorker_spawns [of os "r_s v" "r_w v" "r_attempts v"] show ?thesis
      by (simp add: restart_block_def Let_def body_spawns_def)
  next
    case (SwReturn p' s' w' rest)
    with StartWorker_spawns [of os "r_s v" "r_w v" "r_attempts v"]
    have sp: "spawns (generation (r_s v)) (r_w v) (generation s') w'" by simp
    let ?v2 = "?v1\<lparr>r_s := s', r_w := w', r_p := p', r_attempts := rest\<rparr>"
    let ?d = "getKillOldDelay (environ w')"
    let ?w1 = "if 0 <s ?d then emit (Sleep ?d) w' else w'"
    let ?w2 = "signal_all os (signalOnHUP s') (map fst (oldWorkers ?v2)) ?w1"
    have rb: "restart_block os v =
              (if length (oldWorkers ?v2) = 0 then Continue ?v2 else Continue (?v2\<lparr>r_w := ?w2\<rparr>))"
      using Some SwReturn by (simp add: restart_block_def Let_def)
    have s1: "spawns (generation s') w' (generation s') ?w1"
      by (simp add: emit_Sleep_spawns spawns_refl)
    have s2: "spawns (generation s') ?w1 (generation s') ?w2"
      by (rule signal_all_spawns)
    have s3: "spawns (generation (r_s v)) (r_w v) (generation s') ?w2"
      by (rule spawns_trans [OF sp spawns_trans [OF s1 s2]])
    show ?thesis
    proof (cases "length (oldWorkers ?v2) = 0")
      case True
      with rb have "restart_block os v = Continue ?v2" by simp
      then show ?thesis using sp by (simp add: body_spawns_def)
    next
      case False
      with rb have "restart_block os v = Continue (?v2\<lparr>r_w := ?w2\<rparr>)" by simp
      then show ?thesis using s3 by (simp add: body_spawns_def)
    qed
  qed
qed

lemma loop_body_spawns: "body_spawns v (loop_body os v e)"
proof (cases "select_case os v e")
  case (Pair restart r)
  note sc = select_case_spawns [of v os e]
  show ?thesis
  proof (cases r)
    case (Continue v1)
    with Pair sc
    have a: "spawns (generation (r_s v)) (r_w v) (generation (r_s v1)) (r_w v1)"
      by (simp add: body_spawns_def)
    have b: "body_spawns v1 (restart_block os v1)" by (rule restart_block_spawns)
    show ?thesis
    proof (cases "restart > 1 \<or> restart > 0 \<and> length (oldWorkers v1) = 0")
      case False
      with Pair Continue have "loop_body os v e = Continue v1" by (auto simp: loop_body_def)
      then show ?thesis using a by (simp add: body_spawns_def)
    next
      case True
      with Pair Continue have lb: "loop_body os v e = restart_block os v1"
        by (auto simp: loop_body_def)
      show ?thesis
      proof (cases "restart_block os v1")
        case Stuck
        with lb show ?thesis by (simp add: body_spawns_Stuck)
      next
        case (Continue v2)
        with b have "spawns (generation (r_s v1)) (r_w v1) (generation (r_s v2)) (r_w v2)"
          by (simp add: body_spawns_def)
        from spawns_trans [OF a this] lb Continue show ?thesis by (simp add: body_spawns_def)
      next
        case (Return v2)
        with b have "spawns (generation (r_s v1)) (r_w v1) (generation (r_s v2)) (r_w v2)"
          by (simp add: body_spawns_def)
        from spawns_trans [OF a this] lb Return show ?thesis by (simp add: body_spawns_def)
      next
        case (BodyPanic m v2)
        with b have "spawns (generation (r_s v1)) (r_w v1) (generation (r_s v2)) (r_w v2)"
          by (simp add: body_spawns_def)
        from spawns_trans [OF a this] lb BodyPanic show ?thesis by (simp add: body_spawns_def)
      qed
    qed
  next
    case (Return v1)
    with Pair have "loop_body os v e = Return v1" by (simp add: loop_body_def)
    with Pair Return sc show ?thesis by (simp add: body_spawns_def)
  next
    case (BodyPanic m v1)
    with Pair have "loop_body os v e = BodyPanic m v1" by (simp add: loop_body_def)
    with Pair BodyPanic sc show ?thesis by (simp add: body_spawns_def)
  next
    case Stuck
    with Pair have "loop_body os v e = Stuck" by (simp add: loop_body_def)
    then show ?thesis by (simp add: body_spawns_Stuck)
  qed
qed

lemma supervise_spawns:
  "loop_state (supervise os v evs) = Some v' \<Longrightarrow>
   spawns (generation (r_s v)) (r_w v) (generation (r_s v')) (r_w v')"
proof (induction evs arbitrary: v)
  case Nil
  then show ?case by simp
next
  case (Cons e evs)
  note lb = loop_body_spawns [of v os e]
  show ?case
  proof (cases "loop_body os v e")
    case (Continue v1)
    with Cons.prems have "loop_state (supervise os v1 evs) = Some v'" by simp
    from Cons.IH [OF this] lb Continue show ?thesis
      by (auto simp: body_spawns_def intro: spawns_trans)
  qed (use Cons.prems lb in \<open>auto simp: body_spawns_def\<close>)
qed

lemma deferred_spawns:
  "deferred os v evs = Some (v', rest) \<Longrightarrow>
   spawns (generation (r_s v)) (r_w v) (generation (r_s v')) (r_w v')"
  by (auto simp: deferred_def Let_def signal_all_spawns split: option.splits prod.splits)

lemma setEnv_trace: "trace (setEnv os w) = trace w"
proof -
  have "trace (fold (\<lambda>(k, v) w'. Setenv k v w') kvs w) = trace w" for kvs
    by (induction kvs arbitrary: w) (auto simp: Setenv_def)
  then show ?thesis by (simp add: setEnv_def)
qed

section \<open>The generation seen by every spawned process\<close>

lemma write_pidFile_trace: "write_pidFile os s w = Inr w1 \<Longrightarrow> trace w1 = trace w"
  by (auto simp: write_pidFile_def split: if_splits option.splits)

lemma Teardown_trace: "trace (snd (Teardown s w)) = trace w"
  by (simp add: Teardown_def Remove_def)

lemma Teardown_generation: "generation (fst (Teardown s w)) = generation s"
  by (simp add: Teardown_def Let_def)

lemma spawns_from_zero:
  assumes "spawns 0 w g w'"
  shows "\<exists>new. trace w' = trace w @ new \<and>
           exec_generations new = gen_values 0 (length (exec_envs new)) \<and>
           g = of_nat (length (exec_envs new))"
  using assms by (simp add: spawns_def)

lemma Run_body_spawns:
  assumes "Run_body os s w atts evs = Some (r, s1, w1)"
  shows "trace w1 = trace w \<and> generation s1 = generation s \<or> spawns 0 w (generation s1) w1"
proof (cases "write_pidFile os s w")
  case (Inl e)
  with assms show ?thesis by (auto simp: Run_body_def)
next
  case (Inr wp)
  note tp = write_pidFile_trace [OF Inr]
  show ?thesis
  proof (cases "bind_ports os 0 (ports s) (listeners s)")
    case (Inl x)
    obtain r' ls where x: "x = (r', ls)" by (cases x)
    with assms Inr Inl tp show ?thesis by (auto simp: Run_body_def)
  next
    case bp: (Inr ls)
    let ?s1 = "s\<lparr>listeners := ls, generation := 0\<rparr>"
    let ?w3 = "setEnv os (Setenv ''SERVER_STARTER_GENERATION'' (fmt_d (sint (generation ?s1))) wp)"
    have t3: "trace ?w3 = trace w" by (simp add: setEnv_trace Setenv_def tp)
    have s0: "spawns 0 w 0 ?w3" by (rule spawns_same_trace [OF t3])
    note sw = StartWorker_spawns [of os ?s1 ?w3 atts]
    show ?thesis
    proof (cases "StartWorker os ?s1 ?w3 atts")
      case (SwRetrying s' w')
      with assms Inr bp show ?thesis by (simp add: Run_body_def run_deferred_def Let_def)
    next
      case (SwPanic m s' w')
      with sw have "spawns 0 ?w3 (generation s') w'" by simp
      from spawns_trans [OF s0 this] assms Inr bp SwPanic show ?thesis
        by (simp add: Run_body_def run_deferred_def Let_def)
    next
      case (SwReturn p' s' w' rest)
      with sw have "spawns 0 ?w3 (generation s') w'" by simp
      from spawns_trans [OF s0 this] have a: "spawns 0 w (generation s') w'" .
      have "spawns (generation s') w' (generation s') (setEnv os w')"
        by (rule spawns_same_trace) (rule setEnv_trace)
      from spawns_trans [OF a this] have b: "spawns 0 w (generation s') (setEnv os w')" .
      let ?v = "\<lparr>r_s = s', r_w = setEnv os w', r_p = p', oldWorkers = [],
                 sigReceived = SigNil, sigToSend = SigNil, r_attempts = rest\<rparr>"
      have fin: "spawns 0 w (generation (r_s v'')) (r_w v'')"
        if "loop_state (supervise os ?v evs) = Some v'" "deferred os v' evs' = Some (v'', rest')"
        for v' evs' v'' rest'
      proof -
        from supervise_spawns [OF that(1)] have "spawns (generation s') (setEnv os w')
          (generation (r_s v')) (r_w v')" by simp
        from spawns_trans [OF b this] have "spawns 0 w (generation (r_s v')) (r_w v')" .
        from spawns_trans [OF this deferred_spawns [OF that(2)]] show ?thesis .
      qed
      show ?thesis
      proof (cases "supervise os ?v evs")
        case LBlocked
        with assms Inr bp SwReturn show ?thesis by (simp add: Run_body_def run_deferred_def Let_def)
      next
        case (LReturn v' evs')
        with assms Inr bp SwReturn obtain v'' rest' where
          d: "deferred os v' evs' = Some (v'', rest')" and e: "s1 = r_s v''" "w1 = r_w v''"
          by (auto simp: Run_body_def run_deferred_def Let_def split: option.splits)
        from fin [OF _ d] LReturn e show ?thesis by simp
      next
        case (LPanic m v' evs')
        with assms Inr bp SwReturn obtain v'' rest' where
          d: "deferred os v' evs' = Some (v'', rest')" and e: "s1 = r_s v''" "w1 = r_w v''"
          by (auto simp: Run_body_def run_deferred_def Let_def split: option.splits)
        from fin [OF _ d] LPanic e show ?thesis by simp
      qed
    qed
  qed
qed

text \<open>
  Claim C5: \<^verbatim>\<open>Run\<close> sets the generation to 0 before the first spawn; every attempt of
  \<^verbatim>\<open>StartWorker\<close>, whether its process starts or not and whether it is accepted or not,
  increments it by exactly 1 and sets \<^verbatim>\<open>SERVER_STARTER_GENERATION\<close> to the new value before
  \<^verbatim>\<open>cmd.Start()\<close>. So in every run that ends, the processes started see, in order, the
  generations 1, 2, 3, ... in their environment (\<open>new\<close> is what the run adds to the
  trace), and the counter at the end is the number of attempts made. The counter is a 64-bit
  integer, and the value printed is its two's complement reading.
\<close>

theorem Run_generations:
  assumes "Run os s w atts evs = Some (r, s', w')"
  shows "\<exists>new. trace w' = trace w @ new \<and>
           exec_generations new =
             map (\<lambda>i. Some (fmt_d (sint (of_nat (Suc i) :: 64 word)))) [0..<length (exec_envs new)] \<and>
           (exec_envs new = [] \<or> generation s' = of_nat (length (exec_envs new)))"
proof -
  from assms obtain s1 w1 where rb: "Run_body os s w atts evs = Some (r, s1, w1)"
    and td: "Teardown s1 w1 = (s', w')"
    by (auto simp: Run_def split: option.splits)
  from td have e: "trace w' = trace w1" "generation s' = generation s1"
    using Teardown_trace [of s1 w1] Teardown_generation [of s1 w1] by simp_all
  from Run_body_spawns [OF rb]
  consider "trace w1 = trace w" | "spawns 0 w (generation s1) w1" by blast
  then show ?thesis
  proof cases
    case 1
    show ?thesis
      by (rule exI [of _ "[]"]) (simp add: e 1 exec_generations_def)
  next
    case 2
    from spawns_from_zero [OF 2] obtain new where
      "trace w1 = trace w @ new" "exec_generations new = gen_values 0 (length (exec_envs new))"
      "generation s1 = of_nat (length (exec_envs new))"
      by blast
    then show ?thesis
      by (intro exI [of _ new]) (simp add: e gen_values_def)
  qed
qed


lemma example_run2:
  "\<exists>s' w'. Run example_os example_starter example_world example_attempts2 example_events
       = Some (Returned None, s', w') \<and> length (exec_envs (trace w')) = 2 \<and> generation s' = 2"
  by (simp add: Run_def Run_body_def run_deferred_def write_pidFile_def example_bind Let_def StartWorker_def
      prepare_def run_attempt_def example_attempts2_def example_events_def loop_body_def
      select_case_def deferred_def demote_current_def setEnv_def Setenv_def Getenv_def emit_def
      close_files_def fall_through_def gotSig_of_def fmt_d_examples example_starter_simps
      example_os_def example_world_def Teardown_def Remove_def List.map_filter_def
      split: prod.splits)

theorem Run_generations_witness:
  "\<exists>s' w'. Run example_os example_starter example_world example_attempts2 example_events
       = Some (Returned None, s', w') \<and>
     exec_generations (trace w') = [Some ''1'', Some ''2''] \<and> generation s' = 2"
proof -
  from example_run2 obtain s' w' where
    run: "Run example_os example_starter example_world example_attempts2 example_events
            = Some (Returned None, s', w')"
    and len: "length (exec_envs (trace w')) = 2" and gen: "generation s' = 2"
    by blast
  from Run_generations [OF run] obtain new where
    new: "trace w' = trace example_world @ new"
      "exec_generations new =
         map (\<lambda>i. Some (fmt_d (sint (of_nat (Suc i) :: 64 word)))) [0..<length (exec_envs new)]"
    by blast
  from new(1) have tw: "trace w' = new" by (simp add: example_world_def)
  have two: "[0..<2] = [0, Suc 0]" by (simp add: upt_rec)
  from new(2) len have "exec_generations new = [Some ''1'', Some ''2'']"
    unfolding tw by (simp only: two) (simp add: fmt_d_examples)
  then have "exec_generations (trace w') = [Some ''1'', Some ''2'']" by (simp add: tw)
  with run gen show ?thesis by blast
qed

section \<open>Path specifiers\<close>

lemma inherit_loop_ports:
  assumes "list_all listener_open ls" "i + length ls \<le> length (ports s)"
  shows "\<exists>st'. inherit_loop s i ls st = Inr st' \<and>
           length (i_ports st') = length (i_ports st) \<and>
           (\<forall>k < length (i_ports st).
              i_ports st' ! k = (if i \<le> k \<and> k < i + length ls then port_pair s k else i_ports st ! k))"
  using assms
proof (induction ls arbitrary: i st)
  case Nil
  then show ?case by auto
next
  case (Cons l ls)
  from Cons.prems(1) obtain x where l: "l = Some x" "\<not> l_closed x"
    by (cases l) (auto simp: listener_open_def)
  let ?f = "next_file (i_world st)"
  let ?st1 = "st\<lparr>i_world := (i_world st)\<lparr>next_file := Suc ?f, open_files := open_files (i_world st) @ [?f]\<rparr>,
                   i_defers := ?f # i_defers st\<rparr>"
  let ?st2 = "?st1\<lparr>i_ports := (i_ports ?st1)[i := ports s ! i @ ''='' @ fmt_d (int i + 3)],
                    i_files := (i_files ?st1)[i := Some ?f]\<rparr>"
  have i: "i < length (ports s)" using Cons.prems(2) by simp
  have step: "inherit_loop s i (l # ls) st = inherit_loop s (Suc i) ls ?st2"
    using l i by (simp add: Let_def)
  from Cons.prems have "list_all listener_open ls" "Suc i + length ls \<le> length (ports s)"
    by simp_all
  from Cons.IH [OF this, of ?st2] obtain st' where
    st': "inherit_loop s (Suc i) ls ?st2 = Inr st'"
      "length (i_ports st') = length (i_ports ?st2)"
      "\<forall>k < length (i_ports ?st2).
          i_ports st' ! k = (if Suc i \<le> k \<and> k < Suc i + length ls then port_pair s k
                             else i_ports ?st2 ! k)"
    by blast
  show ?case
  proof (intro exI [of _ st'] conjI allI impI)
    show "inherit_loop s i (l # ls) st = Inr st'" using step st'(1) by simp
    show "length (i_ports st') = length (i_ports st)" using st'(2) by simp
    fix k assume k: "k < length (i_ports st)"
    then have "i_ports st' ! k = (if Suc i \<le> k \<and> k < Suc i + length ls then port_pair s k
                             else i_ports ?st2 ! k)"
      using st'(3) by simp
    then show "i_ports st' ! k =
        (if i \<le> k \<and> k < i + length (l # ls) then port_pair s k else i_ports st ! k)"
      using k by (cases "k = i") (auto simp: port_pair_def)
  qed
qed

lemma prepare_ports_only:
  assumes "list_all listener_open (listeners s)" "length (listeners s) = length (ports s)"
  shows "\<exists>s1 w2 st. prepare s w defers = Inr (s1, w2, st) \<and>
           environ w2 ''SERVER_STARTER_PORT''
             = Some (Join (map (port_pair s) [0..<length (ports s)]) '';'')"
proof -
  let ?st = "\<lparr>i_world = w, i_files = replicate (length (ports s)) None,
              i_ports = replicate (length (ports s)) [], i_defers = defers\<rparr>"
  from inherit_loop_ports [of "listeners s" 0 s ?st] assms obtain st' where
    st': "inherit_loop s 0 (listeners s) ?st = Inr st'"
      "length (i_ports st') = length (ports s)"
      "\<forall>k < length (ports s). i_ports st' ! k = port_pair s k"
    by auto
  have "i_ports st' = map (port_pair s) [0..<length (ports s)]"
    using st'(2,3) by (intro nth_equalityI) auto
  then show ?thesis
    using st'(1) by (simp add: prepare_def Let_def Setenv_def)
qed

lemma example_starter_paths_simps:
  "example_starter_paths = \<lparr>interval = Second, signalOnHUP = Sys SIGTERM, signalOnTERM = Sys SIGTERM,
     statusFile = ''/tmp/starter.status'', pidFile = ''/tmp/starter.pid'', dir = [],
     ports = [''8080''], paths = [''/tmp/app.sock''], listeners = [None, None], generation = 0,
     command = ''server'', args = []\<rparr>"
  by (simp add: example_starter_paths_def NewStarter_def example_config_paths_def
      example_config_def numeral_2_eq_2)

lemma example_bind_paths:
  "bind_ports example_os 0 (ports example_starter_paths) (listeners example_starter_paths) =
     Inr [Some \<lparr>l_addr = '':8080'', l_closed = False\<rparr>, None]"
  by (simp add: example_starter_paths_simps example_os_def listen_address_8080)

text \<open>
  Claim C3 says that \<^verbatim>\<open>Run\<close> opens one listener per configured specifier, the path (UNIX
  domain socket) specifiers included, before the first worker is spawned. \<^verbatim>\<open>Run\<close> binds the
  entries of \<^verbatim>\<open>s.ports\<close> only: for one port and one path, \<^verbatim>\<open>NewStarter\<close> makes two listener
  slots, the loop of \<^verbatim>\<open>Run\<close> fills the first, the slot of the path stays nil, and the first
  \<^verbatim>\<open>StartWorker\<close> panics on it before any process is started.
\<close>

theorem Run_never_binds_paths:
  "NewStarter (Some example_config_paths) = Inr example_starter_paths \<and>
   paths example_starter_paths = [''/tmp/app.sock''] \<and>
   bind_ports example_os 0 (ports example_starter_paths) (listeners example_starter_paths) =
     Inr [Some \<lparr>l_addr = '':8080'', l_closed = False\<rparr>, None] \<and>
   (case Run example_os example_starter_paths example_world example_attempts example_events of
      Some (Panicked m, s', w') \<Rightarrow>
        m = ''interface conversion: interface is nil, not *net.TCPListener'' \<and>
        exec_envs (trace w') = []
    | _ \<Rightarrow> False)"
  by (simp add: example_bind_paths)
     (simp add: Run_def Run_body_def write_pidFile_def example_bind_paths Let_def StartWorker_def
      prepare_def example_attempts_def setEnv_def Setenv_def Getenv_def
      close_files_def fmt_d_examples example_starter_paths_simps
      example_os_def example_world_def Teardown_def Remove_def NewStarter_def
      example_config_paths_def example_config_def numeral_2_eq_2 split: prod.splits)

text \<open>
  Claim C6 says that before each spawn attempt \<^verbatim>\<open>SERVER_STARTER_PORT\<close> holds one
  \<open>spec=fd\<close> pair per configured port and path specifier. With a path configured,
  \<^verbatim>\<open>StartWorker\<close> panics in its loop over the listeners before it sets the variable: no
  attempt is made and the variable stays unset. (Without paths the variable is set as the
  claim says: \<open>prepare_ports_only\<close>.)
\<close>

theorem StartWorker_panics_with_paths:
  "(case StartWorker example_os example_bound_paths example_world example_attempts of
      SwPanic m s' w' \<Rightarrow>
        m = ''interface conversion: interface is nil, not *net.TCPListener'' \<and>
        environ w' ''SERVER_STARTER_PORT'' = None \<and> trace w' = []
    | _ \<Rightarrow> False)"
  by (simp add: StartWorker_def prepare_def example_bound_paths_def example_starter_paths_simps
      example_attempts_def example_world_def close_files_def Let_def)

section \<open>Shutdown\<close>


lemma drain_empties:
  "drain ow evs = Some (ow', rest) \<Longrightarrow>
     ow' = [] \<and> (\<exists>obs. evs = obs @ rest \<and> set (map fst ow) \<subseteq> set (exit_pids obs))"
proof (induction evs arbitrary: ow)
  case Nil
  then show ?case by (auto split: if_splits)
next
  case (Cons e evs)
  show ?case
  proof (cases "ow = []")
    case True
    with Cons.prems show ?thesis by auto
  next
    case False
    show ?thesis
    proof (cases e)
      case (WorkerExit pid status)
      with False Cons.prems have "drain (AList.delete pid ow) evs = Some (ow', rest)" by simp
      from Cons.IH [OF this] obtain obs where
        obs: "ow' = []" "evs = obs @ rest"
          "set (map fst (AList.delete pid ow)) \<subseteq> set (exit_pids obs)"
        by blast
      have "set (map fst ow) \<subseteq> set (exit_pids (e # obs))"
        using obs(3) by (auto simp: WorkerExit delete_keys)
      with obs show ?thesis by (intro conjI exI [of _ "e # obs"]) simp_all
    next
      case (SigRecv sig)
      with False Cons.prems have "drain ow evs = Some (ow', rest)" by simp
      from Cons.IH [OF this] obtain obs where
        obs: "ow' = []" "evs = obs @ rest" "set (map fst ow) \<subseteq> set (exit_pids obs)"
        by blast
      then show ?thesis by (intro conjI exI [of _ "e # obs"]) (simp_all add: SigRecv)
    qed
  qed
qed

lemma drain_returns:
  "set (map fst ow) \<subseteq> set (exit_pids evs) \<Longrightarrow> \<exists>r. drain ow evs = Some r"
proof (induction evs arbitrary: ow)
  case Nil
  then show ?case by simp
next
  case (Cons e evs)
  show ?case
  proof (cases "ow = []")
    case True
    then show ?thesis by simp
  next
    case False
    show ?thesis
    proof (cases e)
      case (WorkerExit pid status)
      with Cons.prems have "set (map fst (AList.delete pid ow)) \<subseteq> set (exit_pids evs)"
        by (auto simp: delete_keys)
      from Cons.IH [OF this] False WorkerExit show ?thesis by simp
    next
      case (SigRecv sig)
      with Cons.prems have "set (map fst ow) \<subseteq> set (exit_pids evs)" by simp
      from Cons.IH [OF this] False SigRecv show ?thesis by simp
    qed
  qed
qed

lemma signal_all_keeps: "set (trace w) \<subseteq> set (trace (signal_all os sig pids w))"
proof (induction pids arbitrary: w)
  case Nil
  show ?case by simp
next
  case (Cons pid pids)
  have "set (trace w) \<subseteq> set (trace (if FindProcess_err os pid then w else emit (Signal pid sig) w))"
    by (auto simp: emit_def)
  also have "\<dots> \<subseteq> set (trace (signal_all os sig (pid # pids) w))"
    using Cons.IH by simp
  finally show ?case .
qed

lemma signal_all_sends:
  "pid \<in> set pids \<Longrightarrow> \<not> FindProcess_err os pid \<Longrightarrow>
     Signal pid sig \<in> set (trace (signal_all os sig pids w))"
proof (induction pids arbitrary: w)
  case Nil
  then show ?case by simp
next
  case (Cons q pids)
  show ?case
  proof (cases "pid = q")
    case True
    with Cons.prems(2) have "Signal pid sig \<in> set (trace (emit (Signal q sig) w))"
      by (simp add: emit_def)
    with True Cons.prems(2) signal_all_keeps [of "emit (Signal q sig) w" os sig pids]
    show ?thesis by auto
  next
    case False
    with Cons.prems have "pid \<in> set pids" by simp
    from Cons.IH [OF this Cons.prems(2)] show ?thesis by simp
  qed
qed

lemma loop_body_shutdown_signal:
  assumes "sig \<in> {Sys SIGTERM, Sys SIGINT, Sys SIGQUIT}"
  shows "loop_body os v (SigRecv sig) =
           Return (v\<lparr>sigReceived := sig,
                     sigToSend := (if sig = Sys SIGTERM then signalOnTERM (r_s v) else Sys SIGTERM)\<rparr>)"
  using assms by (auto simp: loop_body_def select_case_def Let_def)

lemma deferred_facts:
  assumes "deferred os v evs = Some (v2, rest)"
  shows "oldWorkers v2 = []"
    and "\<exists>obs. evs = obs @ rest \<and> set (tracked v) \<subseteq> set (exit_pids obs)"
    and "\<forall>pid \<in> set (tracked v). \<not> FindProcess_err os pid
           \<longrightarrow> Signal pid (sigToSend v) \<in> set (trace (r_w v2))"
proof -
  from assms obtain ow' where
    d: "drain (demote_current v) evs = Some (ow', rest)"
    and v2: "v2 = v\<lparr>oldWorkers := ow',
                    r_w := signal_all os (sigToSend v) (map fst (demote_current v)) (r_w v)\<rparr>"
    by (auto simp: deferred_def Let_def split: option.splits prod.splits)
  from drain_empties [OF d] v2 show "oldWorkers v2 = []"
    and "\<exists>obs. evs = obs @ rest \<and> set (tracked v) \<subseteq> set (exit_pids obs)"
    by (simp_all add: tracked_def)
  show "\<forall>pid \<in> set (tracked v). \<not> FindProcess_err os pid
           \<longrightarrow> Signal pid (sigToSend v) \<in> set (trace (r_w v2))"
  proof (intro ballI impI)
    fix pid assume "pid \<in> set (tracked v)" "\<not> FindProcess_err os pid"
    then have "Signal pid (sigToSend v)
        \<in> set (trace (signal_all os (sigToSend v) (map fst (demote_current v)) (r_w v)))"
      unfolding tracked_def by (rule signal_all_sends)
    then show "Signal pid (sigToSend v) \<in> set (trace (r_w v2))" by (simp add: v2)
  qed
qed

lemma deferred_returns:
  assumes "set (tracked v) \<subseteq> set (exit_pids evs)"
  shows "\<exists>v2 rest. deferred os v evs = Some (v2, rest)"
proof -
  from drain_returns [of "demote_current v" evs] assms obtain r where
    "drain (demote_current v) evs = Some r" by (auto simp: tracked_def)
  then show ?thesis by (cases r) (simp add: deferred_def Let_def)
qed


lemma tracked_signal_update [simp]:
  "tracked (v\<lparr>sigReceived := a, sigToSend := b\<rparr>) = tracked v"
  by (simp add: tracked_def demote_current_def split: option.split)

lemma loop_shutdown:
  assumes "sig \<in> {Sys SIGTERM, Sys SIGINT, Sys SIGQUIT}"
      and "tracked_found os v"
  shows "\<exists>v1. v1 = v\<lparr>sigReceived := sig,
                       sigToSend := (if sig = Sys SIGTERM then signalOnTERM (r_s v) else Sys SIGTERM)\<rparr> \<and>
           loop_body os v (SigRecv sig) = Return v1 \<and>
           run_deferred os (supervise os v (SigRecv sig # evs)) =
             (case deferred os v1 evs of
                None \<Rightarrow> None
              | Some (v2, rest) \<Rightarrow> Some (Returned None, r_s v2, r_w v2)) \<and>
           (\<forall>v2 rest. deferred os v1 evs = Some (v2, rest) \<longrightarrow>
              oldWorkers v2 = [] \<and>
              (\<forall>pid \<in> set (tracked v). Signal pid (sigToSend v1) \<in> set (trace (r_w v2))) \<and>
              (\<exists>obs. evs = obs @ rest \<and> set (tracked v) \<subseteq> set (exit_pids obs))) \<and>
           (set (tracked v) \<subseteq> set (exit_pids evs) \<longrightarrow>
              (\<exists>v2 rest. deferred os v1 evs = Some (v2, rest)))"
proof -
  let ?v1 = "v\<lparr>sigReceived := sig,
                sigToSend := (if sig = Sys SIGTERM then signalOnTERM (r_s v) else Sys SIGTERM)\<rparr>"
  have lb: "loop_body os v (SigRecv sig) = Return ?v1"
    by (rule loop_body_shutdown_signal [OF assms(1)])
  have rd: "run_deferred os (supervise os v (SigRecv sig # evs)) =
             (case deferred os ?v1 evs of
                None \<Rightarrow> None
              | Some (v2, rest) \<Rightarrow> Some (Returned None, r_s v2, r_w v2))"
    by (simp add: lb run_deferred_def)
  have tr: "tracked ?v1 = tracked v" by simp
  have found: "\<forall>pid \<in> set (tracked v). \<not> FindProcess_err os pid"
    using assms(2) by (simp add: tracked_found_def list_all_iff)
  have after: "oldWorkers v2 = [] \<and>
              (\<forall>pid \<in> set (tracked v). Signal pid (sigToSend ?v1) \<in> set (trace (r_w v2))) \<and>
              (\<exists>obs. evs = obs @ rest \<and> set (tracked v) \<subseteq> set (exit_pids obs))"
    if d: "deferred os ?v1 evs = Some (v2, rest)" for v2 rest
    using deferred_facts [OF d] found unfolding tr by blast
  have prog: "set (tracked v) \<subseteq> set (exit_pids evs) \<longrightarrow>
              (\<exists>v2 rest. deferred os ?v1 evs = Some (v2, rest))"
    using deferred_returns [of ?v1 evs os] unfolding tr by blast
  show ?thesis
    using lb rd after prog by (intro exI [of _ ?v1] conjI) blast+
qed

section \<open>The loop on HUP, and what it tracks\<close>

lemma StartWorker_found:
  "StartWorker os s w atts = SwReturn (Some pid) s' w' rest \<Longrightarrow> \<not> FindProcess_err os pid"
  unfolding StartWorker_def using StartWorker_loop_never_dead [of os pid s w "[]" atts s' w' rest]
  by blast

lemma tracked_found_iff:
  "tracked_found os v \<longleftrightarrow>
     (\<forall>pid \<in> fst ` set (oldWorkers v). \<not> FindProcess_err os pid) \<and>
     (\<forall>pid. r_p v = Some pid \<longrightarrow> \<not> FindProcess_err os pid)"
  by (cases "r_p v")
     (auto simp: tracked_found_def tracked_def demote_current_def list_all_iff dom_update)

lemma select_case_tracked_found:
  assumes "tracked_found os v"
  shows "case snd (select_case os v e) of
           Continue v' \<Rightarrow> tracked_found os v'
         | Return v' \<Rightarrow> tracked_found os v'
         | BodyPanic m v' \<Rightarrow> tracked_found os v'
         | Stuck \<Rightarrow> True"
proof (cases e)
  case (WorkerExit pid status)
  show ?thesis
  proof (cases "r_p v")
    case None
    with assms WorkerExit show ?thesis by (simp add: select_case_def)
  next
    case (Some cur)
    show ?thesis
    proof (cases "cur = pid")
      case False
      have "set (AList.delete pid (oldWorkers v)) \<subseteq> set (oldWorkers v)"
        by (auto simp: AList.delete_eq)
      with assms Some False WorkerExit show ?thesis
        by (auto simp: select_case_def tracked_found_iff)
    next
      case True
      show ?thesis
      proof (cases "StartWorker os (r_s v) (r_w v) (r_attempts v)")
        case (SwReturn p' s' w' rest)
        with StartWorker_found [of os "r_s v" "r_w v" "r_attempts v" _ s' w' rest]
        have "\<forall>pid. p' = Some pid \<longrightarrow> \<not> FindProcess_err os pid" by auto
        with assms Some True WorkerExit SwReturn show ?thesis
          by (auto simp: select_case_def tracked_found_iff)
      next
        case (SwPanic m s' w')
        with assms Some True WorkerExit show ?thesis
          by (auto simp: select_case_def tracked_found_iff)
      next
        case (SwRetrying s' w')
        with assms Some True WorkerExit show ?thesis by (simp add: select_case_def)
      qed
    qed
  qed
next
  case (SigRecv sig)
  with assms show ?thesis by (auto simp: select_case_def Let_def tracked_found_iff)
qed

lemma restart_block_tracked_found:
  assumes "tracked_found os v"
  shows "case restart_block os v of
           Continue v' \<Rightarrow> tracked_found os v'
         | Return v' \<Rightarrow> tracked_found os v'
         | BodyPanic m v' \<Rightarrow> tracked_found os v'
         | Stuck \<Rightarrow> True"
proof (cases "r_p v")
  case None
  with assms show ?thesis by (simp add: restart_block_def)
next
  case (Some cur)
  with assms have cur: "\<not> FindProcess_err os cur" by (simp add: tracked_found_iff)
  show ?thesis
  proof (cases "StartWorker os (r_s v) (r_w v) (r_attempts v)")
    case (SwReturn p' s' w' rest)
    with StartWorker_found [of os "r_s v" "r_w v" "r_attempts v" _ s' w' rest]
    have "\<forall>pid. p' = Some pid \<longrightarrow> \<not> FindProcess_err os pid" by auto
    with assms Some cur SwReturn show ?thesis
      by (auto simp: restart_block_def Let_def tracked_found_iff dom_update)
  next
    case (SwPanic m s' w')
    with assms Some cur show ?thesis
      by (auto simp: restart_block_def Let_def tracked_found_iff dom_update)
  next
    case (SwRetrying s' w')
    with Some show ?thesis by (simp add: restart_block_def Let_def)
  qed
qed

lemma loop_body_tracked_found:
  assumes "tracked_found os v"
  shows "case loop_body os v e of
           Continue v' \<Rightarrow> tracked_found os v'
         | Return v' \<Rightarrow> tracked_found os v'
         | BodyPanic m v' \<Rightarrow> tracked_found os v'
         | Stuck \<Rightarrow> True"
proof (cases "select_case os v e")
  case (Pair restart r)
  note sc = select_case_tracked_found [OF assms, of e]
  show ?thesis
  proof (cases r)
    case (Continue v1)
    with Pair sc have t1: "tracked_found os v1" by simp
    show ?thesis
    proof (cases "restart > 1 \<or> restart > 0 \<and> length (oldWorkers v1) = 0")
      case True
      with Pair Continue have "loop_body os v e = restart_block os v1"
        by (auto simp: loop_body_def)
      with restart_block_tracked_found [OF t1] show ?thesis by simp
    next
      case False
      with Pair Continue have "loop_body os v e = Continue v1" by (auto simp: loop_body_def)
      with t1 show ?thesis by simp
    qed
  qed (use Pair sc in \<open>auto simp: loop_body_def\<close>)
qed

lemma supervise_tracked_found:
  "tracked_found os v \<Longrightarrow> loop_state (supervise os v evs) = Some v' \<Longrightarrow> tracked_found os v'"
proof (induction evs arbitrary: v)
  case Nil
  then show ?case by simp
next
  case (Cons e evs)
  note lb = loop_body_tracked_found [OF Cons.prems(1), of e]
  show ?case
  proof (cases "loop_body os v e")
    case (Continue v1)
    with lb have "tracked_found os v1" by simp
    moreover from Cons.prems(2) Continue have "loop_state (supervise os v1 evs) = Some v'" by simp
    ultimately show ?thesis by (rule Cons.IH)
  qed (use Cons.prems(2) lb in auto)
qed



lemma example_draining_tracked: "tracked example_draining = [100, 101]"
  by (simp add: tracked_def demote_current_def example_draining_def)

text \<open>
  Where claim C1 fails as stated: with worker 100 still draining and 101 current, a HUP
  leaves 101 current, \<^verbatim>\<open>oldWorkers\<close> as it is, and consumes no spawn attempt. In a whole run
  with two HUPs in a row and then TERM, only two processes are ever started (the first worker
  and one replacement).
\<close>

theorem HUP_ignored_while_draining:
  "(case loop_body example_os example_draining (SigRecv (Sys SIGHUP)) of
      Continue v' \<Rightarrow>
        r_p v' = Some 101 \<and> oldWorkers v' = [(100, 1)] \<and> generation (r_s v') = 2 \<and>
        r_attempts v' = [Started 102 []] \<and> trace (r_w v') = []
    | _ \<Rightarrow> False) \<and>
   (case Run example_os example_starter example_world example_attempts3 example_events_hup2 of
      Some (r, s', w') \<Rightarrow>
        r = Returned None \<and> generation s' = 2 \<and> length (exec_envs (trace w')) = 2
    | None \<Rightarrow> False)"
  by (simp add: loop_body_def select_case_def Let_def example_draining_def example_bound_def
        example_starter_simps example_world_def)
     (simp add: Run_def Run_body_def run_deferred_def write_pidFile_def example_bind Let_def
      StartWorker_def prepare_def run_attempt_def restart_block_def getKillOldDelay_def
      ParseInt_def ParseBool_def
      example_attempts3_def example_events_hup2_def loop_body_def
      select_case_def deferred_def demote_current_def setEnv_def Setenv_def Getenv_def emit_def
      close_files_def gotSig_of_def fmt_d_examples example_starter_simps example_os_def
      example_world_def Teardown_def Remove_def split: prod.splits)

section \<open>StartWorker accepts the first process that is found; HUP\<close>

lemma prepare_usable:
  assumes "listeners_usable s"
  shows "\<exists>w2 st. prepare s w defers = Inr (s\<lparr>generation := generation s + 1\<rparr>, w2, st) \<and>
           trace w2 = trace w"
proof -
  from prepare_ports_only [of s w defers] assms obtain s1 w2 st where
    pr: "prepare s w defers = Inr (s1, w2, st)"
    by (auto simp: listeners_usable_def)
  from prepare_Inr [OF pr] prepare_Inr_facts(1) [OF pr] pr show ?thesis by auto
qed

lemma listeners_usable_generation:
  "listeners_usable (s\<lparr>generation := g\<rparr>) = listeners_usable s"
  by (simp add: listeners_usable_def)

lemma run_attempt_fails:
  assumes "attempt_fails os a"
  shows "\<exists>w' quiet. run_attempt os s w st a = Inr w' \<and>
           trace w' = trace w @ Exec (command s) (args s) (dir s) (i_files st) (environ w) # quiet \<and>
           exec_envs quiet = []"
proof -
  from assms have "\<exists>w'. run_attempt os s w st a = Inr w'"
    by (cases a) (auto simp: attempt_fails_def run_attempt_def Let_def)
  then obtain w' where r: "run_attempt os s w st a = Inr w'" by blast
  with run_attempt_trace [of os s w st a] show ?thesis by auto
qed

lemma run_attempt_found:
  assumes "\<not> FindProcess_err os pid"
  shows "\<exists>w' quiet. run_attempt os s w st (Started pid sigs) = Inl (Some pid, w') \<and>
           trace w' = trace w @ Exec (command s) (args s) (dir s) (i_files st) (environ w) # quiet \<and>
           exec_envs quiet = [] \<and> Reap pid \<in> set quiet \<and> Wait pid \<notin> set quiet"
  using assms
  by (intro exI [of _ "close_files (i_defers st) (emit (Reap pid)
         (fold (\<lambda>sig. emit (Resend sig)) sigs
            (emit (Exec (command s) (args s) (dir s) (i_files st) (environ w)) w)))"]
        exI [of _ "map Resend sigs @ [Reap pid]"])
     (auto simp: run_attempt_def Let_def close_files_def emit_def fold_Resend_trace
        exec_envs_append exec_envs_Resend)

lemma StartWorker_loop_returns_first_started:
  assumes "prepare s w defers = Inr (s1, w2, st)" "\<not> FindProcess_err os pid"
  shows "\<exists>w' new. StartWorker_loop os s w defers (Started pid sigs # rest)
             = SwReturn (Some pid) s1 w' rest \<and>
           trace w' = trace w @ new \<and> Reap pid \<in> set new \<and> Wait pid \<notin> set new \<and>
           length (exec_envs new) = 1"
proof -
  from run_attempt_found [OF assms(2), of s1 w2 st sigs] obtain w' quiet where
    r: "run_attempt os s1 w2 st (Started pid sigs) = Inl (Some pid, w')"
      "trace w' = trace w2 @ Exec (command s1) (args s1) (dir s1) (i_files st) (environ w2) # quiet"
      "exec_envs quiet = []" "Reap pid \<in> set quiet" "Wait pid \<notin> set quiet"
    by blast
  have t2: "trace w2 = trace w" by (rule prepare_Inr_facts(1) [OF assms(1)])
  show ?thesis
    by (intro exI [of _ w']
          exI [of _ "Exec (command s1) (args s1) (dir s1) (i_files st) (environ w2) # quiet"])
       (simp add: assms(1) r t2)
qed

lemma StartWorker_loop_accepts:
  assumes "listeners_usable s" "list_all (attempt_fails os) fails" "\<not> FindProcess_err os pid"
  shows "\<exists>w' new. StartWorker_loop os s w defers (fails @ Started pid sigs # rest)
             = SwReturn (Some pid) (s\<lparr>generation := generation s + of_nat (length fails) + 1\<rparr>) w' rest \<and>
           trace w' = trace w @ new \<and> length (exec_envs new) = Suc (length fails) \<and>
           Reap pid \<in> set new"
  using assms(1,2)
proof (induction fails arbitrary: s w defers)
  case Nil
  from prepare_usable [OF Nil.prems(1), of w defers] obtain w2 st where
    pr: "prepare s w defers = Inr (s\<lparr>generation := generation s + 1\<rparr>, w2, st)" by blast
  from StartWorker_loop_returns_first_started [OF pr assms(3), of sigs rest]
  show ?case by auto
next
  case (Cons a fails)
  let ?s1 = "s\<lparr>generation := generation s + 1\<rparr>"
  from prepare_usable [OF Cons.prems(1), of w defers] obtain w2 st where
    pr: "prepare s w defers = Inr (?s1, w2, st)" and t2: "trace w2 = trace w" by blast
  from Cons.prems(2) have af: "attempt_fails os a" and rest: "list_all (attempt_fails os) fails"
    by simp_all
  from run_attempt_fails [OF af, of ?s1 w2 st] obtain w3 quiet where
    r: "run_attempt os ?s1 w2 st a = Inr w3"
      "trace w3 = trace w2 @ Exec (command ?s1) (args ?s1) (dir ?s1) (i_files st) (environ w2) # quiet"
      "exec_envs quiet = []"
    by blast
  have us: "listeners_usable ?s1" using Cons.prems(1) by (simp add: listeners_usable_generation)
  from Cons.IH [OF us rest, of w3 "i_defers st"] obtain w' new where
    ih: "StartWorker_loop os ?s1 w3 (i_defers st) (fails @ Started pid sigs # rest)
           = SwReturn (Some pid) (?s1\<lparr>generation := generation ?s1 + of_nat (length fails) + 1\<rparr>) w' rest"
      "trace w' = trace w3 @ new" "length (exec_envs new) = Suc (length fails)" "Reap pid \<in> set new"
    by blast
  let ?new = "Exec (command ?s1) (args ?s1) (dir ?s1) (i_files st) (environ w2) # quiet @ new"
  have step: "StartWorker_loop os s w defers ((a # fails) @ Started pid sigs # rest)
      = StartWorker_loop os ?s1 w3 (i_defers st) (fails @ Started pid sigs # rest)"
    by (simp add: pr r(1))
  have gen: "?s1\<lparr>generation := generation ?s1 + of_nat (length fails) + 1\<rparr>
      = s\<lparr>generation := generation s + of_nat (length (a # fails)) + 1\<rparr>"
    by simp
  have res: "StartWorker_loop os s w defers ((a # fails) @ Started pid sigs # rest)
      = SwReturn (Some pid) (s\<lparr>generation := generation s + of_nat (length (a # fails)) + 1\<rparr>) w' rest"
    unfolding step ih(1) gen ..
  have tr: "trace w' = trace w @ ?new" by (simp add: ih(2) r(2) t2)
  have ln: "length (exec_envs ?new) = Suc (length (a # fails))"
    by (simp add: exec_envs_append r(3) ih(3))
  have rp: "Reap pid \<in> set ?new" using ih(4) by simp
  from res tr ln rp show ?case by blast
qed


text \<open>
  Claim C2 says that \<^verbatim>\<open>StartWorker\<close> never returns a handle to a process that exited within
  the liveness interval while no signal other than HUP arrived. The source never observes
  the exit: after the interval its only test is whether \<^verbatim>\<open>os.FindProcess(pid)\<close> returns an
  error, which is why the answer of the system for an attempt has no component for the
  exit. Where \<^verbatim>\<open>os.FindProcess\<close> finds every pid, as the Go library documents for Unix, the
  first process that starts is returned whatever became of it: pid 100 starts, no signal
  arrives, and \<^verbatim>\<open>StartWorker\<close> returns its handle and starts the reaper, with no
  \<^verbatim>\<open>cmd.Wait()\<close>, no second attempt and the generation still at 1. For every input:
  \<open>StartWorker_loop_returns_first_started\<close>.
\<close>

theorem StartWorker_returns_exited_process:
  "FindProcess_err example_os 100 = False \<and>
   (case StartWorker example_os example_bound example_world [Started 100 [], Started 101 []] of
      SwReturn p' s' w' rest \<Rightarrow>
        p' = Some 100 \<and> generation s' = 1 \<and> rest = [Started 101 []] \<and>
        Reap 100 \<in> set (trace w') \<and> Wait 100 \<notin> set (trace w') \<and>
        length (exec_envs (trace w')) = 1
    | _ \<Rightarrow> False)"
  by (simp add: StartWorker_def prepare_def run_attempt_def example_bound_def
      example_starter_simps example_world_def example_os_def Let_def Setenv_def emit_def
      close_files_def gotSig_of_def fmt_d_examples split: prod.splits)

lemma kill_old_trace:
  "\<exists>quiet. trace (signal_all os sig pids (if b then emit (Sleep d) w else w)) = trace w @ quiet \<and>
     exec_envs quiet = []"
proof -
  from signal_all_trace [of os sig pids "if b then emit (Sleep d) w else w"] obtain q where
    q: "trace (signal_all os sig pids (if b then emit (Sleep d) w else w))
          = trace (if b then emit (Sleep d) w else w) @ q" "exec_envs q = []"
    by blast
  show ?thesis
  proof (cases b)
    case True
    with q show ?thesis by (intro exI [of _ "Sleep d # q"]) (simp add: emit_def)
  next
    case False
    with q show ?thesis by (intro exI [of _ q]) simp
  qed
qed

text \<open>
  Claim C1, as the code has it. HUP sets \<^verbatim>\<open>restart = 1\<close>, and the replacement runs under
  \<^verbatim>\<open>restart > 1 || restart > 0 && len(oldWorkers) == 0\<close>. The hypotheses are on the inputs:
  a current worker \<open>cur\<close>, usable listeners, and a system that answers the next spawn
  attempts with any number of failures and then with a process \<open>pid\<close> that
  \<^verbatim>\<open>os.FindProcess\<close> finds. Then a HUP processed while no old worker is tracked puts \<open>cur\<close>
  into \<^verbatim>\<open>oldWorkers\<close> under the generation it has at that moment, \<^verbatim>\<open>StartWorker\<close> starts one
  process per attempt (\<open>new\<close> is what the iteration adds to the trace) and a reaper for
  \<open>pid\<close>, the generation advances by the number of attempts, and \<open>pid\<close> is the current
  worker. A HUP processed while an old worker is still tracked only records the signal:
  the current worker, \<^verbatim>\<open>oldWorkers\<close>, the generation and the world stay as they are and
  nothing is spawned.
\<close>

theorem HUP_replaces_worker:
  assumes "r_p v = Some cur"
      and "listeners_usable (r_s v)"
      and "r_attempts v = fails @ Started pid sigs # rest"
      and "list_all (attempt_fails os) fails"
      and "\<not> FindProcess_err os pid"
  shows "(oldWorkers v = [] \<longrightarrow>
           (\<exists>v' new. loop_body os v (SigRecv (Sys SIGHUP)) = Continue v' \<and>
              oldWorkers v' = [(cur, generation (r_s v))] \<and>
              r_p v' = Some pid \<and>
              r_s v' = (r_s v)\<lparr>generation := generation (r_s v) + of_nat (length fails) + 1\<rparr> \<and>
              r_attempts v' = rest \<and>
              sigToSend v' = signalOnHUP (r_s v) \<and>
              trace (r_w v') = trace (r_w v) @ new \<and>
              length (exec_envs new) = Suc (length fails) \<and>
              Reap pid \<in> set new)) \<and>
         (oldWorkers v \<noteq> [] \<longrightarrow>
            loop_body os v (SigRecv (Sys SIGHUP))
              = Continue (v\<lparr>sigReceived := Sys SIGHUP, sigToSend := signalOnHUP (r_s v)\<rparr>))"
proof (intro conjI impI)
  assume "oldWorkers v \<noteq> []"
  then show "loop_body os v (SigRecv (Sys SIGHUP))
                  = Continue (v\<lparr>sigReceived := Sys SIGHUP, sigToSend := signalOnHUP (r_s v)\<rparr>)"
    by (simp add: loop_body_def select_case_def Let_def)
next
  assume empty: "oldWorkers v = []"
  let ?s' = "(r_s v)\<lparr>generation := generation (r_s v) + of_nat (length fails) + 1\<rparr>"
  from StartWorker_loop_accepts [OF assms(2,4,5), of "r_w v" "[]" sigs rest] assms(3)
  obtain w' new where
    sw: "StartWorker os (r_s v) (r_w v) (r_attempts v) = SwReturn (Some pid) ?s' w' rest"
    and tr: "trace w' = trace (r_w v) @ new" "length (exec_envs new) = Suc (length fails)"
      "Reap pid \<in> set new"
    by (auto simp: StartWorker_def)
  let ?v0 = "v\<lparr>sigReceived := Sys SIGHUP, sigToSend := signalOnHUP (r_s v)\<rparr>"
  define w2 where "w2 = signal_all os (signalOnHUP ?s') [cur]
      (if 0 <s getKillOldDelay (environ w')
       then emit (Sleep (getKillOldDelay (environ w'))) w' else w')"
  let ?v' = "?v0\<lparr>oldWorkers := [(cur, generation (r_s v))], r_s := ?s', r_w := w2,
                   r_p := Some pid, r_attempts := rest\<rparr>"
  have lb: "loop_body os v (SigRecv (Sys SIGHUP)) = restart_block os ?v0"
    using empty by (simp add: loop_body_def select_case_def Let_def)
  have rb: "restart_block os ?v0 = Continue ?v'"
    using assms(1) empty sw by (simp add: restart_block_def Let_def w2_def)
  from kill_old_trace [of os "signalOnHUP ?s'" "[cur]" "0 <s getKillOldDelay (environ w')"
      "getKillOldDelay (environ w')" w']
  obtain quiet where
    q: "trace w2 = trace w' @ quiet" "exec_envs quiet = []" unfolding w2_def by blast
  have a: "trace (r_w ?v') = trace (r_w v) @ (new @ quiet)" by (simp add: q tr)
  have b: "length (exec_envs (new @ quiet)) = Suc (length fails)"
    by (simp add: exec_envs_append q tr)
  have c: "Reap pid \<in> set (new @ quiet)" using tr by simp
  show "\<exists>v' new. loop_body os v (SigRecv (Sys SIGHUP)) = Continue v' \<and>
              oldWorkers v' = [(cur, generation (r_s v))] \<and>
              r_p v' = Some pid \<and>
              r_s v' = (r_s v)\<lparr>generation := generation (r_s v) + of_nat (length fails) + 1\<rparr> \<and>
              r_attempts v' = rest \<and>
              sigToSend v' = signalOnHUP (r_s v) \<and>
              trace (r_w v') = trace (r_w v) @ new \<and>
              length (exec_envs new) = Suc (length fails) \<and>
              Reap pid \<in> set new"
    apply (rule exI [of _ ?v'])
    apply (rule exI [of _ "new @ quiet"])
    apply (intro conjI)
            apply (simp only: lb rb)
           apply simp
          apply simp
         apply simp
        apply simp
       apply simp
      apply (rule a)
     apply (rule b)
    apply (rule c)
    done
qed

theorem HUP_replaces_worker_witness:
  "(\<exists>v' new. loop_body example_os example_fresh_failing (SigRecv (Sys SIGHUP)) = Continue v' \<and>
         oldWorkers v' = [(100, 1)] \<and> r_p v' = Some 101 \<and> generation (r_s v') = 3 \<and>
         r_attempts v' = [Started 102 []] \<and>
         trace (r_w v') = new \<and> length (exec_envs new) = 2 \<and> Reap 101 \<in> set new) \<and>
   loop_body example_os example_draining (SigRecv (Sys SIGHUP))
     = Continue (example_draining\<lparr>sigReceived := Sys SIGHUP, sigToSend := Sys SIGTERM\<rparr>)"
proof -
  have p: "r_p example_fresh_failing = Some 100" "oldWorkers example_fresh_failing = []"
    "generation (r_s example_fresh_failing) = 1"
    "listeners_usable (r_s example_fresh_failing)"
    "r_attempts example_fresh_failing
       = [StartError ''exec format error''] @ Started 101 [] # [Started 102 []]"
    "trace (r_w example_fresh_failing) = []"
    by (simp_all add: example_fresh_failing_def example_fresh_def example_bound_def
        example_starter_simps example_world_def listeners_usable_def listener_open_def)
  have f: "list_all (attempt_fails example_os) [StartError ''exec format error'']"
    "\<not> FindProcess_err example_os 101"
    by (simp_all add: attempt_fails_def example_os_def)
  have q: "r_p example_draining = Some 101" "oldWorkers example_draining \<noteq> []"
    "signalOnHUP (r_s example_draining) = Sys SIGTERM"
    "listeners_usable (r_s example_draining)"
    "r_attempts example_draining = [] @ Started 102 [] # []"
    "\<not> FindProcess_err example_os 102" "list_all (attempt_fails example_os) []"
    by (simp_all add: example_draining_def example_bound_def example_starter_simps
        listeners_usable_def listener_open_def example_os_def)
  from HUP_replaces_worker [OF p(1) p(4) p(5) f] p(2,3,6)
  have a: "\<exists>v' new. loop_body example_os example_fresh_failing (SigRecv (Sys SIGHUP)) = Continue v' \<and>
         oldWorkers v' = [(100, 1)] \<and> r_p v' = Some 101 \<and> generation (r_s v') = 3 \<and>
         r_attempts v' = [Started 102 []] \<and>
         trace (r_w v') = new \<and> length (exec_envs new) = 2 \<and> Reap 101 \<in> set new"
    by auto
  from HUP_replaces_worker [OF q(1) q(4) q(5) q(7) q(6)] q(2,3)
  have b: "loop_body example_os example_draining (SigRecv (Sys SIGHUP))
     = Continue (example_draining\<lparr>sigReceived := Sys SIGHUP, sigToSend := Sys SIGTERM\<rparr>)"
    by simp
  from a b show ?thesis by blast
qed

section \<open>Shutdown of a run\<close>











end
